theory Spec2Isabelle
  imports Main "HOL-Library.AList" "HOL-Library.Multiset"
begin

section \<open>Values, plain objects and errors\<close>

text \<open>
  The documents of this development have scalar fields, as the schemas the repository is
  exercised with (\<open>{title: String}\<close>, \<open>{text: String}\<close>). An object id and a date are kept by
  their numeric value. A plain JavaScript object is the list of its own properties in key
  order; \<open>map_of\<close> reads a property, \<open>AList.update\<close> assigns one (in place when the key
  exists, at the end otherwise) and \<open>AList.delete\<close> is the \<open>delete\<close> operator.
\<close>

datatype jsval = JNull | JBool bool | JNum int | JStr string

type_synonym obj = "(string \<times> jsval) list"

datatype error =
    RollbackError string
  | ValidationError string
  | JsonPatchError string
  | TypeError string
  | PersistenceError string

section \<open>The diff engine (fast-json-patch) on flat objects\<close>

text \<open>
  A patch operation addresses a top-level field: \<open>Add k v\<close> is
  \<open>{op: "add", path: "/k", value: v}\<close>, and so on. \<open>op_path\<close> gives the JSON pointer
  as the library writes it.
\<close>

datatype operation = Add string jsval | Replace string jsval | Remove string

fun op_key :: "operation \<Rightarrow> string" where
  "op_key (Add k v) = k"
| "op_key (Replace k v) = k"
| "op_key (Remove k) = k"

definition escapePathComponent :: "string \<Rightarrow> string" where
  "escapePathComponent s =
     concat (map (\<lambda>c. if c = CHR ''~'' then ''~0'' else if c = CHR ''/'' then ''~1'' else [c]) s)"

definition op_path :: "operation \<Rightarrow> string" where
  "op_path p = ''/'' @ escapePathComponent (op_key p)"

text \<open>
  \<open>jsonpatch.compare(mirror, obj)\<close>: the old keys are visited last to first, giving a
  \<open>replace\<close> for a changed value and a \<open>remove\<close> for a missing key; unless nothing was
  removed and both objects have as many keys, the new keys are then visited first to last,
  giving an \<open>add\<close> for each key the mirror lacks. The two values of a field are scalars of
  the field's type and are compared as such.
\<close>

definition old_key_ops :: "obj \<Rightarrow> obj \<Rightarrow> string \<Rightarrow> operation list" where
  "old_key_ops mirror object k =
     (case map_of object k of
        Some newVal \<Rightarrow> (if map_of mirror k \<noteq> Some newVal then [Replace k newVal] else [])
      | None \<Rightarrow> [Remove k])"

definition new_key_ops :: "obj \<Rightarrow> obj \<Rightarrow> string \<Rightarrow> operation list" where
  "new_key_ops mirror object k =
     (case map_of object k of
        Some v \<Rightarrow> (if map_of mirror k = None then [Add k v] else [])
      | None \<Rightarrow> [])"

definition jsonpatch_compare :: "obj \<Rightarrow> obj \<Rightarrow> operation list" where
  "jsonpatch_compare mirror object =
     (let newKeys = map fst object;
          oldKeys = map fst mirror;
          changes = concat (map (old_key_ops mirror object) (rev oldKeys));
          deleted = list_ex (\<lambda>k. map_of object k = None) oldKeys
      in if \<not> deleted \<and> length newKeys = length oldKeys then changes
         else changes @ concat (map (new_key_ops mirror object) newKeys))"

text \<open>
  \<open>jsonpatch.apply(tree, ops, true)\<close>, with validation on: \<open>add\<close> assigns the field;
  \<open>replace\<close> and \<open>remove\<close> throw when the path does not resolve. The first failing
  operation aborts the whole call.
\<close>

fun apply_operation :: "obj \<Rightarrow> operation \<Rightarrow> error + obj" where
  "apply_operation tree (Add k v) = Inr (AList.update k v tree)"
| "apply_operation tree (Replace k v) =
     (if map_of tree k = None then Inl (JsonPatchError ''OPERATION_PATH_UNRESOLVABLE'')
      else Inr (AList.update k v tree))"
| "apply_operation tree (Remove k) =
     (if map_of tree k = None then Inl (JsonPatchError ''OPERATION_PATH_UNRESOLVABLE'')
      else Inr (AList.delete k tree))"

fun jsonpatch_apply :: "obj \<Rightarrow> operation list \<Rightarrow> error + obj" where
  "jsonpatch_apply tree [] = Inr tree"
| "jsonpatch_apply tree (p # ps) =
     (case apply_operation tree p of
        Inl e \<Rightarrow> Inl e
      | Inr tree' \<Rightarrow> jsonpatch_apply tree' ps)"

section \<open>lodash merge on flat objects\<close>

text \<open>
  \<open>_.merge(object, source)\<close> writes every property of \<open>source\<close> into \<open>object\<close>, in place,
  and returns \<open>object\<close>; an \<open>undefined\<close> destination (\<open>None\<close>) becomes a fresh empty
  object.
\<close>

definition lodash_merge :: "obj option \<Rightarrow> obj \<Rightarrow> obj" where
  "lodash_merge object source =
     foldl (\<lambda>acc (k, v). AList.update k v acc) (case object of None \<Rightarrow> [] | Some x \<Rightarrow> x) source"

section \<open>Plugin options\<close>

text \<open>
  The options object the plugin is given is a plain object keyed by option names. An include
  declaration keeps what the plugin reads of it: whether the field is required on a patch, and
  the optional \<open>from\<close> property naming the document property to copy.
\<close>

record include_spec =
  required :: bool
  from_field :: "string option"

datatype optval =
    OUndefined
  | ONull
  | OBool bool
  | OStr string
  | OIncludes "(string \<times> include_spec) list"

type_synonym options = "(string \<times> optval) list"

fun truthy :: "optval \<Rightarrow> bool" where
  "truthy OUndefined = False"
| "truthy ONull = False"
| "truthy (OBool b) = b"
| "truthy (OStr s) = (s \<noteq> [])"
| "truthy (OIncludes xs) = True"

definition defaultOptions :: options where
  "defaultOptions = [(''includes'', OIncludes []), (''removePatches'', OBool True)]"

text \<open>
  \<open>_.merge({}, defaultOptions, opts)\<close>: a source property that is \<open>undefined\<close> never
  overwrites an existing one; an object-valued source property is merged into an object-valued
  destination, name by name; any other value is assigned.
\<close>

fun merge_option :: "options \<Rightarrow> string \<times> optval \<Rightarrow> options" where
  "merge_option acc (k, OUndefined) =
     (if map_of acc k = None then acc @ [(k, OUndefined)] else acc)"
| "merge_option acc (k, OIncludes xs) =
     (case map_of acc k of
        Some (OIncludes ys) \<Rightarrow>
          AList.update k (OIncludes (foldl (\<lambda>zs (n, i). AList.update n i zs) ys xs)) acc
      | _ \<Rightarrow> AList.update k (OIncludes xs) acc)"
| "merge_option acc (k, v) = AList.update k v acc"

definition patchHistory_options :: "options \<Rightarrow> options" where
  "patchHistory_options opts = foldl merge_option (foldl merge_option [] defaultOptions) opts"

definition includes_of :: "options \<Rightarrow> (string \<times> include_spec) list" where
  "includes_of opts = (case map_of opts ''includes'' of Some (OIncludes xs) \<Rightarrow> xs | _ \<Rightarrow> [])"

text \<open>\<open>a || b\<close> on an optional string: an absent or empty \<open>a\<close> gives \<open>b\<close>.\<close>

fun or_default :: "string option \<Rightarrow> string \<Rightarrow> string" where
  "or_default None d = d"
| "or_default (Some s) d = (if s = [] then d else s)"

section \<open>Schemas, documents and the connection\<close>

text \<open>
  A schema lists its declared paths, its virtuals with a setter (the virtual's name and the
  instance property the setter assigns) and its \<open>timestamps\<close> option: \<open>None\<close> when unset,
  otherwise the custom names of the two timestamp paths, if any.
\<close>

record schema =
  paths :: "string list"
  virtuals :: "(string \<times> string) list"
  timestamps :: "(string option \<times> string option) option"

text \<open>
  A document instance: its model's name, its \<open>_id\<close>, \<open>isNew\<close>, the values of its paths, the
  snapshot \<open>_original\<close> (\<open>None\<close> until a snapshot is taken) and its other instance properties.
\<close>

record document =
  modelName :: string
  doc_id :: nat
  isNew :: bool
  vals :: obj
  original :: "obj option"
  props :: obj

record patch =
  pid :: nat
  date :: nat
  ops :: "operation list"
  ref :: nat
  included :: obj

text \<open>
  The connection: the registered models (for a patch model, the required flag of each included
  field of its schema), the patch collection of each model name in insertion order, the stored
  documents by \<open>_id\<close>, the clock read by \<open>Date.now\<close> and the next object id.
\<close>

record db =
  models :: "(string \<times> (string \<times> bool) list) list"
  patch_colls :: "string \<Rightarrow> patch list"
  documents :: "nat \<Rightarrow> obj option"
  clock :: nat
  next_oid :: nat

section \<open>The plugin\<close>

text \<open>
  \<open>createPatchSchema\<close>: next to \<open>date\<close>, \<open>ops\<close> and \<open>ref\<close>, the patch schema declares
  each included field by its declaration without \<open>from\<close>; the names of the included fields
  are taken to differ from those three.
\<close>

definition createPatchSchema :: "options \<Rightarrow> (string \<times> bool) list" where
  "createPatchSchema opts = map (\<lambda>(name, t). (name, required t)) (includes_of opts)"

text \<open>
  \<open>data\<close>: the document's object without the version key, with \<open>_id\<close> and, when the schema
  has timestamps, the two timestamp paths deleted. The object lists the paths in the order
  they were first assigned; the host lists them in the order of the schema. The order of the
  keys, and with it the order of the operations inside one diff, is therefore not what the
  statements below are about: they compare objects by content (\<open>map_of\<close>), and the diffs
  they evaluate are of one field.
\<close>

definition toObject :: "document \<Rightarrow> obj" where
  "toObject d = (''_id'', JNum (int (doc_id d))) # vals d"

definition data :: "schema \<Rightarrow> document \<Rightarrow> obj" where
  "data sch d =
     (let ret = AList.delete ''_id'' (toObject d)
      in case timestamps sch of
           None \<Rightarrow> ret
         | Some (c, u) \<Rightarrow>
             AList.delete (or_default u ''updatedAt'') (AList.delete (or_default c ''createdAt'') ret))"

text \<open>The names \<open>data\<close> deletes from the document's object.\<close>

definition stripped :: "schema \<Rightarrow> string list" where
  "stripped sch =
     ''_id'' # (case timestamps sch of
                  None \<Rightarrow> []
                | Some (c, u) \<Rightarrow> [or_default c ''createdAt'', or_default u ''updatedAt''])"

text \<open>
  \<open>getPatchModel\<close>: the patch model's name is \<open>options.modelName\<close> when that is truthy and
  the model's name followed by \<open>Patches\<close> otherwise; the model is registered with the patch
  schema on first use. The name is a string: \<open>options.modelName\<close> set to a truthy value
  that is not a string is a misconfiguration, under which the host's registry refuses the
  name and no patch model exists. The embedding does not follow that refusal; \<open>name_or\<close>
  gives such a value its string form, and no statement below is about such options.
\<close>

fun name_or :: "optval option \<Rightarrow> string \<Rightarrow> string" where
  "name_or (Some (OStr s)) d = (if s = [] then d else s)"
| "name_or (Some (OBool True)) d = ''true''"
| "name_or (Some (OIncludes xs)) d = ''[object Object]''"
| "name_or v d = d"

definition patchModelName :: "options \<Rightarrow> string \<Rightarrow> string" where
  "patchModelName opts name = name_or (map_of opts ''modelName'') (name @ ''Patches'')"

definition getPatchModel :: "options \<Rightarrow> string \<Rightarrow> db \<Rightarrow> string \<times> db" where
  "getPatchModel opts name c =
     (let pm = patchModelName opts name
      in if pm \<notin> set (map fst (models c))
         then (pm, c\<lparr>models := models c @ [(pm, createPatchSchema opts)]\<rparr>)
         else (pm, c))"

text \<open>
  The patch model's \<open>create\<close>: the patch is validated against the registered schema
  (\<open>ops\<close> and every required included field must be present), gets the next object id and the
  current time as \<open>date\<close>, and is appended to the collection. Fields the schema does not
  declare are not stored.
\<close>

definition missing_required :: "(string \<times> bool) list \<Rightarrow> obj \<Rightarrow> string list" where
  "missing_required ps dat =
     map fst (filter (\<lambda>(n, req). req \<and> (map_of dat n = None \<or> map_of dat n = Some JNull)) ps)"

definition patches_create :: "string \<Rightarrow> operation list \<Rightarrow> nat \<Rightarrow> obj \<Rightarrow> db \<Rightarrow> error + db" where
  "patches_create pm os r dat c =
     (let ps = (case map_of (models c) pm of None \<Rightarrow> [] | Some x \<Rightarrow> x)
      in if os = [] then Inl (ValidationError ''ops'')
         else case missing_required ps dat of
                n # ns \<Rightarrow> Inl (ValidationError n)
              | [] \<Rightarrow>
                  Inr (c\<lparr>patch_colls := (patch_colls c)
                            (pm := patch_colls c pm @
                               [\<lparr>pid = next_oid c, date = clock c, ops = os, ref = r,
                                 included = filter (\<lambda>(n, v). n \<in> set (map fst ps)) dat\<rparr>]),
                          next_oid := Suc (next_oid c)\<rparr>))"

text \<open>\<open>patch.remove()\<close> deletes the stored patch with that \<open>_id\<close>.\<close>

definition patch_remove :: "string \<Rightarrow> patch \<Rightarrow> db \<Rightarrow> db" where
  "patch_remove pm p c =
     c\<lparr>patch_colls := (patch_colls c)(pm := filter (\<lambda>q. pid q \<noteq> pid p) (patch_colls c pm))\<rparr>"

text \<open>\<open>this[name]\<close>: an instance property, or else the value of the path of that name.\<close>

definition get_prop :: "document \<Rightarrow> string \<Rightarrow> jsval option" where
  "get_prop d p = (case map_of (props d) p of Some v \<Rightarrow> Some v | None \<Rightarrow> map_of (vals d) p)"

definition snapshot :: "schema \<Rightarrow> document \<Rightarrow> document" where
  "snapshot sch d = d\<lparr>original := Some (data sch d)\<rparr>"

text \<open>
  The \<open>pre('save')\<close> hook. The computed diff is \<open>save_ops\<close>; reading the keys of a missing
  snapshot throws. The included fields that are defined on the document are copied into the
  patch data.
\<close>

definition save_ops :: "schema \<Rightarrow> document \<Rightarrow> error + operation list" where
  "save_ops sch d =
     (case (if isNew d then Some [] else original d) of
        None \<Rightarrow> Inl (TypeError ''Cannot convert undefined or null to object'')
      | Some before \<Rightarrow> Inr (jsonpatch_compare before (data sch d)))"

definition include_data :: "options \<Rightarrow> document \<Rightarrow> obj" where
  "include_data opts d =
     foldl (\<lambda>dat (name, t).
              case get_prop d (or_default (from_field t) name) of
                None \<Rightarrow> AList.delete name dat
              | Some v \<Rightarrow> AList.update name v dat)
       [] (includes_of opts)"

definition pre_save :: "options \<Rightarrow> schema \<Rightarrow> document \<Rightarrow> db \<Rightarrow> error option \<times> db" where
  "pre_save opts sch d c =
     (case save_ops sch d of
        Inl e \<Rightarrow> (Some e, c)
      | Inr os \<Rightarrow>
          if os = [] then (None, c)
          else
            let dat = include_data opts d;
                (pm, c1) = getPatchModel opts (modelName d) c
            in case patches_create pm os (doc_id d) dat c1 of
                 Inl e \<Rightarrow> (Some e, c1)
               | Inr c2 \<Rightarrow> (None, c2))"

text \<open>
  The \<open>pre('remove')\<close> hook: unless \<open>removePatches\<close> is falsy, every patch found for the
  document is removed.
\<close>

definition removePatches_on :: "options \<Rightarrow> bool" where
  "removePatches_on opts = (case map_of opts ''removePatches'' of None \<Rightarrow> False | Some v \<Rightarrow> truthy v)"

definition pre_remove :: "options \<Rightarrow> document \<Rightarrow> db \<Rightarrow> error option \<times> db" where
  "pre_remove opts d c =
     (if \<not> removePatches_on opts then (None, c)
      else
        let (pm, c1) = getPatchModel opts (modelName d) c;
            found = filter (\<lambda>p. ref p = doc_id d) (patch_colls c1 pm)
        in (None, fold (patch_remove pm) found c1))"

section \<open>The host's document operations\<close>

text \<open>
  \<open>doc.set(object)\<close> assigns each property: to the path of that name, or through the
  virtual's setter; a name the schema does not know is ignored (strict mode).
\<close>

definition set_path :: "schema \<Rightarrow> document \<Rightarrow> string \<times> jsval \<Rightarrow> document" where
  "set_path sch d kv =
     (if fst kv \<in> set (paths sch) then d\<lparr>vals := AList.update (fst kv) (snd kv) (vals d)\<rparr>
      else case map_of (virtuals sch) (fst kv) of
             Some target \<Rightarrow> d\<lparr>props := AList.update target (snd kv) (props d)\<rparr>
           | None \<Rightarrow> d)"

definition set_doc :: "schema \<Rightarrow> document \<Rightarrow> obj \<Rightarrow> document" where
  "set_doc sch d object = foldl (set_path sch) d object"

text \<open>
  With the \<open>timestamps\<close> option the host stamps the document before the other save hooks run.
\<close>

definition stamp :: "schema \<Rightarrow> nat \<Rightarrow> document \<Rightarrow> document" where
  "stamp sch now d =
     (case timestamps sch of
        None \<Rightarrow> d
      | Some (c, u) \<Rightarrow>
          let v1 = (if isNew d then AList.update (or_default c ''createdAt'') (JNum (int now)) (vals d)
                    else vals d)
          in d\<lparr>vals := AList.update (or_default u ''updatedAt'') (JNum (int now)) v1\<rparr>)"

text \<open>
  \<open>doc.save()\<close>: the pre hooks run first and an error of theirs rejects the save; then the
  host writes the document to the store, and a write the store rejects (a duplicate key, a lost
  connection) rejects the save as well; otherwise the document is written, is no longer new,
  and the post hook takes the snapshot. The first argument is the store's answer to the write
  of the document: \<open>None\<close> when the store accepts it, the error when it rejects it.
\<close>

definition save ::
  "error option \<Rightarrow> options \<Rightarrow> schema \<Rightarrow> document \<Rightarrow> db \<Rightarrow> error option \<times> document \<times> db" where
  "save w opts sch d c =
     (let d1 = stamp sch (clock c) d
      in case pre_save opts sch d1 c of
           (Some e, c1) \<Rightarrow> (Some e, d1, c1)
         | (None, c1) \<Rightarrow>
             (case w of
                Some e \<Rightarrow> (Some e, d1, c1)
              | None \<Rightarrow>
                  (None,
                   snapshot sch (d1\<lparr>isNew := False\<rparr>),
                   c1\<lparr>documents := (documents c1)(doc_id d1 \<mapsto> vals d1)\<rparr>)))"

text \<open>\<open>doc.remove()\<close>: the pre hook, then the deletion of the stored document.\<close>

definition remove :: "options \<Rightarrow> document \<Rightarrow> db \<Rightarrow> error option \<times> document \<times> db" where
  "remove opts d c =
     (case pre_remove opts d c of
        (Some e, c1) \<Rightarrow> (Some e, d, c1)
      | (None, c1) \<Rightarrow> (None, d, c1\<lparr>documents := (documents c1)(doc_id d := None)\<rparr>))"

text \<open>
  \<open>new Model(object)\<close> with a fresh object id; \<open>Model.create(object)\<close> saves it; a document
  loaded from the store is initialised and the post-init hook takes its snapshot.
\<close>

definition new_document :: "schema \<Rightarrow> string \<Rightarrow> obj \<Rightarrow> db \<Rightarrow> document \<times> db" where
  "new_document sch name object c =
     (set_doc sch \<lparr>modelName = name, doc_id = next_oid c, isNew = True, vals = [],
                   original = None, props = []\<rparr> object,
      c\<lparr>next_oid := Suc (next_oid c)\<rparr>)"

definition create ::
  "error option \<Rightarrow> options \<Rightarrow> schema \<Rightarrow> string \<Rightarrow> obj \<Rightarrow> db \<Rightarrow> error option \<times> document \<times> db" where
  "create w opts sch name object c =
     (let (d, c1) = new_document sch name object c in save w opts sch d c1)"

definition findById :: "schema \<Rightarrow> string \<Rightarrow> nat \<Rightarrow> db \<Rightarrow> document option" where
  "findById sch name i c =
     (case documents c i of
        None \<Rightarrow> None
      | Some v \<Rightarrow>
          Some (snapshot sch \<lparr>modelName = name, doc_id = i, isNew = False, vals = v,
                              original = None, props = []\<rparr>))"

definition tick :: "nat \<Rightarrow> db \<Rightarrow> db" where
  "tick n c = c\<lparr>clock := clock c + n\<rparr>"

definition empty_db :: db where
  "empty_db = \<lparr>models = [], patch_colls = (\<lambda>pm. []), documents = (\<lambda>i. None), clock = 0, next_oid = 1\<rparr>"

section \<open>Rollback\<close>

text \<open>
  \<open>patches.forEach(patch => jsonpatch.apply(state, patch.ops, true))\<close>: the patches are
  applied in order to one state object.
\<close>

fun apply_patches :: "obj \<Rightarrow> patch list \<Rightarrow> error + obj" where
  "apply_patches state [] = Inr state"
| "apply_patches state (p # ps) =
     (case jsonpatch_apply state (ops p) of
        Inl e \<Rightarrow> Inl e
      | Inr state' \<Rightarrow> apply_patches state' ps)"

text \<open>
  The two queries of \<open>rollback\<close> on the patch collection: the count of the document's patches
  with an id at or above the given one, and the document's patches with an id at or below it,
  sorted by ascending date (patches of equal date stay in stored order).
\<close>

definition count_from :: "nat \<Rightarrow> nat \<Rightarrow> patch list \<Rightarrow> nat" where
  "count_from r patchId ps = length (filter (\<lambda>p. ref p = r \<and> patchId \<le> pid p) ps)"

definition find_upto :: "nat \<Rightarrow> nat \<Rightarrow> patch list \<Rightarrow> patch list" where
  "find_upto r patchId ps = sort_key date (filter (\<lambda>p. ref p = r \<and> pid p \<le> patchId) ps)"

text \<open>
  \<open>rollback(patchId, data)\<close> returns the rejection, if any, the document, the caller's
  \<open>data\<close> object as the call leaves it (\<open>None\<close> when none was passed) and the connection.
  Each \<open>this.patches\<close> is a call of \<open>getPatchModel\<close>. The first argument is the store's
  answer to the write of the document, passed on to the save.
\<close>

definition rollback ::
  "error option \<Rightarrow> options \<Rightarrow> schema \<Rightarrow> nat \<Rightarrow> obj option \<Rightarrow> document \<Rightarrow> db
     \<Rightarrow> error option \<times> document \<times> obj option \<times> db" where
  "rollback w opts sch patchId dat d c =
     (let (pm, c1) = getPatchModel opts (modelName d) c
      in if count_from (doc_id d) patchId (patch_colls c1 pm) = 1
         then (Some (RollbackError ''rollback to latest patch''), d, dat, c1)
         else
           let (pm2, c2) = getPatchModel opts (modelName d) c1;
               patches = find_upto (doc_id d) patchId (patch_colls c2 pm2)
           in if \<not> list_ex (\<lambda>p. pid p = patchId) patches
              then (Some (RollbackError ''patch doesn't exist''), d, dat, c2)
              else case apply_patches [] patches of
                     Inl e \<Rightarrow> (Some e, d, dat, c2)
                   | Inr state \<Rightarrow>
                       let merged = lodash_merge dat state;
                           (err, d2, c3) = save w opts sch (set_doc sch d merged) c2
                       in (err, d2, map_option (\<lambda>x. merged) dat, c3))"

text \<open>
  A history: the states a document was saved in, one after the other from the state \<open>s\<close>,
  and the patches holding the diff from each state to the next.
\<close>

fun is_history :: "obj \<Rightarrow> obj list \<Rightarrow> patch list \<Rightarrow> bool" where
  "is_history s [] [] = True"
| "is_history s (x # xs) (p # ps) =
     (ops p = jsonpatch_compare s x \<and> distinct (map fst x) \<and> is_history x xs ps)"
| "is_history s xs ps = False"

text \<open>The four components of what \<open>rollback\<close> returns.\<close>

definition rb_err :: "error option \<times> document \<times> obj option \<times> db \<Rightarrow> error option" where
  "rb_err r = fst r"

definition rb_doc :: "error option \<times> document \<times> obj option \<times> db \<Rightarrow> document" where
  "rb_doc r = fst (snd r)"

definition rb_data :: "error option \<times> document \<times> obj option \<times> db \<Rightarrow> obj option" where
  "rb_data r = fst (snd (snd r))"

definition rb_db :: "error option \<times> document \<times> obj option \<times> db \<Rightarrow> db" where
  "rb_db r = snd (snd (snd r))"

section \<open>The schemas and histories of the test suite\<close>

text \<open>
  The test suite's \<open>PostSchema\<close> (a title, timestamps, the plugin with no options) and
  \<open>CommentSchema\<close> (a text, a virtual \<open>user\<close> whose setter assigns \<open>_user\<close>, the plugin with
  \<open>removePatches: false\<close> and the included fields \<open>text\<close> and the required \<open>user\<close>, copied
  from \<open>_user\<close>).
\<close>

definition PostSchema :: schema where
  "PostSchema = \<lparr>paths = [''title''], virtuals = [], timestamps = Some (None, None)\<rparr>"

definition post_options :: options where
  "post_options = patchHistory_options []"

definition CommentSchema :: schema where
  "CommentSchema = \<lparr>paths = [''text''], virtuals = [(''user'', ''_user'')], timestamps = None\<rparr>"

definition comment_opts :: options where
  "comment_opts =
     [(''removePatches'', OBool False),
      (''includes'', OIncludes
         [(''text'', \<lparr>required = False, from_field = None\<rparr>),
          (''user'', \<lparr>required = True, from_field = Some ''_user''\<rparr>)])]"

definition comment_options :: options where
  "comment_options = patchHistory_options comment_opts"

definition err_of :: "error option \<times> document \<times> db \<Rightarrow> error option" where
  "err_of r = fst r"

definition doc_of :: "error option \<times> document \<times> db \<Rightarrow> document" where
  "doc_of r = fst (snd r)"

definition db_of :: "error option \<times> document \<times> db \<Rightarrow> db" where
  "db_of r = snd (snd r)"

text \<open>
  A post created as \<open>version 1\<close> and saved as \<open>version 2\<close> and \<open>version 3\<close>, one
  millisecond apart; the same post saved a third time as \<open>version 1\<close> again.
\<close>

definition set_title :: "string \<Rightarrow> error option \<times> document \<times> db \<Rightarrow> error option \<times> document \<times> db" where
  "set_title s r =
     save None post_options PostSchema (set_doc PostSchema (doc_of r) [(''title'', JStr s)]) (tick 1 (db_of r))"

definition post_v1 :: "error option \<times> document \<times> db" where
  "post_v1 = create None post_options PostSchema ''Post'' [(''title'', JStr ''version 1'')] empty_db"

definition post_v2 :: "error option \<times> document \<times> db" where
  "post_v2 = set_title ''version 2'' post_v1"

definition post_v3 :: "error option \<times> document \<times> db" where
  "post_v3 = set_title ''version 3'' post_v2"

definition post_v121 :: "error option \<times> document \<times> db" where
  "post_v121 = set_title ''version 1'' post_v2"

text \<open>A comment created with its user, and one created without.\<close>

definition comment_v1 :: "error option \<times> document \<times> db" where
  "comment_v1 =
     create None comment_options CommentSchema ''Comment'' [(''text'', JStr ''wat''), (''user'', JNum 7)] empty_db"

definition comment_no_user :: "error option \<times> document \<times> db" where
  "comment_no_user =
     create None comment_options CommentSchema ''Comment'' [(''text'', JStr ''wat'')] empty_db"

text \<open>
  A document type with two paths: a note created with a title only, then saved with a body.
\<close>

definition NoteSchema :: schema where
  "NoteSchema = \<lparr>paths = [''title'', ''body''], virtuals = [], timestamps = None\<rparr>"

definition note_v1 :: "error option \<times> document \<times> db" where
  "note_v1 = create None post_options NoteSchema ''Note'' [(''title'', JStr ''a'')] empty_db"

definition note_v2 :: "error option \<times> document \<times> db" where
  "note_v2 =
     save None post_options NoteSchema (set_doc NoteSchema (doc_of note_v1) [(''body'', JStr ''b'')])
       (tick 1 (db_of note_v1))"

text \<open>The test suite's new documents before their first save.\<close>

definition new_post :: "document \<times> db" where
  "new_post = new_document PostSchema ''Post'' [(''title'', JStr ''foo'')] empty_db"

definition new_comment :: "document \<times> db" where
  "new_comment = new_document CommentSchema ''Comment'' [(''text'', JStr ''wat'')] empty_db"

section \<open>Properties of the diff engine\<close>

lemma new_key_ops_adds:
  assumes "distinct (map fst object)" and "set xs \<subseteq> set object"
  shows "concat (map (new_key_ops [] object) (map fst xs)) = map (\<lambda>(k, v). Add k v) xs"
  using assms(2)
proof (induction xs)
  case Nil
  then show ?case by simp
next
  case (Cons x xs)
  obtain k v where x: "x = (k, v)" by (cases x)
  from Cons.prems x have "(k, v) \<in> set object" by simp
  with assms(1) have "map_of object k = Some v" by simp
  with Cons x show ?case by (simp add: new_key_ops_def)
qed

lemma compare_empty_mirror:
  assumes "distinct (map fst object)"
  shows "jsonpatch_compare [] object = map (\<lambda>(k, v). Add k v) object"
proof (cases object)
  case Nil
  then show ?thesis by (simp add: jsonpatch_compare_def)
next
  case (Cons a list)
  then have "length (map fst object) \<noteq> length (map fst ([]::obj))" by simp
  then show ?thesis
    using new_key_ops_adds [OF assms, of object] by (simp add: jsonpatch_compare_def Let_def)
qed

lemma compare_same_content:
  assumes "map_of mirror = map_of object" and "length mirror = length object"
  shows "jsonpatch_compare mirror object = []"
proof -
  have present: "map_of object k \<noteq> None" if "k \<in> set (map fst mirror)" for k
  proof -
    from that have "map_of mirror k \<noteq> None"
      by (metis map_of_eq_None_iff set_map)
    with assms(1) show ?thesis by simp
  qed
  have no_old: "old_key_ops mirror object k = []" if "k \<in> set (map fst mirror)" for k
    using present [OF that] assms(1) by (auto simp: old_key_ops_def split: option.splits)
  have changes: "concat (map (old_key_ops mirror object) (rev (map fst mirror))) = []"
    using no_old by (simp add: concat_eq_Nil_conv)
  have not_deleted: "\<not> list_ex (\<lambda>k. map_of object k = None) (map fst mirror)"
    using present by (auto simp: list_ex_iff)
  show ?thesis
    using changes not_deleted assms(2) by (simp add: jsonpatch_compare_def Let_def)
qed

lemma compare_same_distinct:
  assumes "map_of mirror = map_of object"
    and "distinct (map fst mirror)" and "distinct (map fst object)"
  shows "jsonpatch_compare mirror object = []"
proof -
  have "dom (map_of mirror) = dom (map_of object)" using assms(1) by simp
  then have "set (map fst mirror) = set (map fst object)" by (simp add: dom_map_of_conv_image_fst)
  then have "card (set (map fst mirror)) = card (set (map fst object))" by simp
  moreover have "card (set (map fst mirror)) = length (map fst mirror)"
    using assms(2) by (rule distinct_card)
  moreover have "card (set (map fst object)) = length (map fst object)"
    using assms(3) by (rule distinct_card)
  ultimately have "length mirror = length object" by simp
  then show ?thesis using compare_same_content [OF assms(1)] by simp
qed

section \<open>The patch model and the options\<close>

lemma getPatchModel_fst: "fst (getPatchModel opts name c) = patchModelName opts name"
  by (simp add: getPatchModel_def Let_def)

lemma getPatchModel_colls: "patch_colls (snd (getPatchModel opts name c)) = patch_colls c"
  by (simp add: getPatchModel_def Let_def)

lemma getPatchModel_documents: "documents (snd (getPatchModel opts name c)) = documents c"
  by (simp add: getPatchModel_def Let_def)

lemma getPatchModel_clock: "clock (snd (getPatchModel opts name c)) = clock c"
  by (simp add: getPatchModel_def Let_def)

lemma merge_option_other: "k \<noteq> fst kv \<Longrightarrow> map_of (merge_option acc kv) k = map_of acc k"
proof -
  assume ne: "k \<noteq> fst kv"
  obtain k' v where kv: "kv = (k', v)" by (cases kv)
  from ne kv have "k \<noteq> k'" by simp
  then show ?thesis unfolding kv
    by (cases v) (auto simp: update_conv' map_add_def split: option.splits optval.splits)
qed

lemma merge_options_absent:
  "k \<notin> fst ` set opts \<Longrightarrow> map_of (foldl merge_option acc opts) k = map_of acc k"
proof (induction opts arbitrary: acc)
  case Nil
  then show ?case by simp
next
  case (Cons kv opts)
  then have "k \<noteq> fst kv" and "k \<notin> fst ` set opts" by auto
  then show ?case using Cons.IH [of "merge_option acc kv"] by (simp add: merge_option_other)
qed

lemma merge_option_scalar:
  "v = ONull \<or> v = OBool b \<or> v = OStr s \<Longrightarrow> map_of (merge_option acc (k, v)) k = Some v"
  by (auto simp: update_conv')

lemma merge_options_scalar:
  assumes "distinct (map fst opts)" and "(k, v) \<in> set opts"
    and "v = ONull \<or> v = OBool b \<or> v = OStr s"
  shows "map_of (foldl merge_option acc opts) k = Some v"
  using assms(1,2)
proof (induction opts arbitrary: acc)
  case Nil
  then show ?case by simp
next
  case (Cons kv opts)
  show ?case
  proof (cases "kv = (k, v)")
    case True
    with Cons.prems(1) have "k \<notin> fst ` set opts" by auto
    then have "map_of (foldl merge_option (merge_option acc kv) opts) k = map_of (merge_option acc kv) k"
      by (rule merge_options_absent)
    with True assms(3) show ?thesis using merge_option_scalar [of v b s acc k] by simp
  next
    case False
    with Cons.prems have "(k, v) \<in> set opts" and "distinct (map fst opts)" by auto
    then show ?thesis using Cons.IH by simp
  qed
qed

lemma default_modelName: "map_of (foldl merge_option [] defaultOptions) ''modelName'' = None"
  by (simp add: defaultOptions_def)

lemma default_removePatches:
  "map_of (foldl merge_option [] defaultOptions) ''removePatches'' = Some (OBool True)"
  by (simp add: defaultOptions_def)

lemma getPatchModel_eq:
  "\<exists>c1. getPatchModel opts name c = (patchModelName opts name, c1) \<and>
        getPatchModel opts name c1 = (patchModelName opts name, c1) \<and>
        patch_colls c1 = patch_colls c \<and> documents c1 = documents c \<and> clock c1 = clock c"
  by (simp add: getPatchModel_def Let_def)

lemma fold_patch_remove_colls:
  "patch_colls (fold (patch_remove pm) found c) =
     (patch_colls c)(pm := filter (\<lambda>q. pid q \<notin> pid ` set found) (patch_colls c pm))"
proof (induction found arbitrary: c)
  case Nil
  then show ?case by simp
next
  case (Cons p found)
  let ?c = "patch_remove pm p c"
  have step: "patch_colls ?c = (patch_colls c)(pm := filter (\<lambda>q. pid q \<noteq> pid p) (patch_colls c pm))"
    by (simp add: patch_remove_def)
  have flt: "filter (\<lambda>q. pid q \<notin> pid ` set found) (filter (\<lambda>q. pid q \<noteq> pid p) (patch_colls c pm))
      = filter (\<lambda>q. pid q \<notin> pid ` set (p # found)) (patch_colls c pm)"
    by (auto intro: filter_cong)
  have "patch_colls (fold (patch_remove pm) (p # found) c) = patch_colls (fold (patch_remove pm) found ?c)"
    by simp
  also have "\<dots> = (patch_colls ?c)(pm := filter (\<lambda>q. pid q \<notin> pid ` set found) (patch_colls ?c pm))"
    by (rule Cons.IH)
  also have "\<dots> = (patch_colls c)(pm := filter (\<lambda>q. pid q \<notin> pid ` set (p # found)) (patch_colls c pm))"
    unfolding step using flt by simp
  finally show ?case .
qed

lemma fold_patch_remove_documents: "documents (fold (patch_remove pm) found c) = documents c"
  by (induction found arbitrary: c) (simp_all add: patch_remove_def)

lemma removed_all_found:
  "filter (\<lambda>p. ref p = r)
     (filter (\<lambda>q. pid q \<notin> pid ` set (filter (\<lambda>p. ref p = r) ps)) ps) = []"
  by (auto simp: filter_empty_conv)

section \<open>Claims about the configuration\<close>

text \<open>
  Claim C9, as amended. The patch collection's model identifier is taken from the option named
  \<open>modelName\<close> when it is supplied as a non-empty string, and is the document type's model
  name with the suffix \<open>Patches\<close> appended when the option is not supplied.
\<close>

theorem patch_model_name_rule:
  "(distinct (map fst opts) \<and> (''modelName'', OStr s) \<in> set opts \<and> s \<noteq> [] \<longrightarrow>
      fst (getPatchModel (patchHistory_options opts) name c) = s) \<and>
   (''modelName'' \<notin> fst ` set opts \<longrightarrow>
      fst (getPatchModel (patchHistory_options opts) name c) = name @ ''Patches'')"
proof (intro conjI impI)
  assume a: "distinct (map fst opts) \<and> (''modelName'', OStr s) \<in> set opts \<and> s \<noteq> []"
  then have "map_of (patchHistory_options opts) ''modelName'' = Some (OStr s)"
    unfolding patchHistory_options_def using merge_options_scalar [of opts "''modelName''" "OStr s" _ s] by blast
  with a show "fst (getPatchModel (patchHistory_options opts) name c) = s"
    by (simp add: getPatchModel_fst patchModelName_def)
next
  assume "''modelName'' \<notin> fst ` set opts"
  then have "map_of (patchHistory_options opts) ''modelName'' = None"
    unfolding patchHistory_options_def by (simp add: merge_options_absent default_modelName)
  then show "fst (getPatchModel (patchHistory_options opts) name c) = name @ ''Patches''"
    by (simp add: getPatchModel_fst patchModelName_def)
qed

text \<open>
  An option named \<open>patchModelName\<close> is not read: with it supplied, the identifier is still
  the derived one.
\<close>

theorem patch_model_name_counterexample:
  "fst (getPatchModel (patchHistory_options [(''patchModelName'', OStr ''History'')]) ''Post'' empty_db)
     = ''PostPatches'' \<and>
   fst (getPatchModel (patchHistory_options [(''patchModelName'', OStr ''History'')]) ''Post'' empty_db)
     \<noteq> ''History''"
  by code_simp

theorem patch_model_name_rule_witness:
  "fst (getPatchModel (patchHistory_options [(''modelName'', OStr ''History'')]) ''Post'' empty_db) = ''History'' \<and>
   fst (getPatchModel (patchHistory_options []) ''Post'' empty_db) = ''PostPatches''"
proof -
  have h1: "distinct (map fst [(''modelName'', OStr ''History'')]) \<and>
      (''modelName'', OStr ''History'') \<in> set [(''modelName'', OStr ''History'')] \<and> ''History'' \<noteq> []"
    by simp
  have h2: "''modelName'' \<notin> fst ` set ([]::options)" by simp
  from patch_model_name_rule [of "[(''modelName'', OStr ''History'')]" "''History''" "''Post''" empty_db] h1
  have a: "fst (getPatchModel (patchHistory_options [(''modelName'', OStr ''History'')]) ''Post'' empty_db) = ''History''"
    by blast
  from patch_model_name_rule [of "[]" "''x''" "''Post''" empty_db] h2
  have b: "fst (getPatchModel (patchHistory_options []) ''Post'' empty_db) = ''PostPatches''"
    by simp
  from a b show ?thesis by simp
qed

text \<open>
  Claim C8. \<open>removePatches\<close> defaults to true; a removal with \<open>removePatches\<close> enabled
  succeeds and leaves no patch whose \<open>ref\<close> is the removed document's id; with
  \<open>removePatches\<close> set to false the removal leaves every patch collection as it was.
\<close>

theorem cascading_removal:
  "(''removePatches'' \<notin> fst ` set opts \<longrightarrow> removePatches_on (patchHistory_options opts)) \<and>
   (removePatches_on options \<longrightarrow>
      (case remove options d c of (e, d', c') \<Rightarrow>
         e = None \<and> documents c' (doc_id d) = None \<and>
         filter (\<lambda>p. ref p = doc_id d) (patch_colls c' (patchModelName options (modelName d))) = [])) \<and>
   (distinct (map fst opts) \<and> (''removePatches'', OBool False) \<in> set opts \<longrightarrow>
      (case remove (patchHistory_options opts) d c of (e, d', c') \<Rightarrow>
         e = None \<and> documents c' (doc_id d) = None \<and> patch_colls c' = patch_colls c))"
proof (intro conjI impI)
  assume "''removePatches'' \<notin> fst ` set opts"
  then have "map_of (patchHistory_options opts) ''removePatches'' = Some (OBool True)"
    unfolding patchHistory_options_def by (simp add: merge_options_absent default_removePatches)
  then show "removePatches_on (patchHistory_options opts)" by (simp add: removePatches_on_def)
next
  assume on: "removePatches_on options"
  obtain c1 where g: "getPatchModel options (modelName d) c = (patchModelName options (modelName d), c1)"
    and c1: "patch_colls c1 = patch_colls c" "documents c1 = documents c"
    using getPatchModel_eq by blast
  let ?pm = "patchModelName options (modelName d)"
  let ?found = "filter (\<lambda>p. ref p = doc_id d) (patch_colls c ?pm)"
  let ?c' = "(fold (patch_remove ?pm) ?found c1)\<lparr>documents := (documents c)(doc_id d := None)\<rparr>"
  have r: "remove options d c = (None, d, ?c')"
    using on g c1 by (simp add: remove_def pre_remove_def fold_patch_remove_documents)
  have "patch_colls ?c' ?pm = filter (\<lambda>q. pid q \<notin> pid ` set ?found) (patch_colls c ?pm)"
    using c1 by (simp add: fold_patch_remove_colls)
  then have "filter (\<lambda>p. ref p = doc_id d) (patch_colls ?c' ?pm) = []"
    by (simp only: removed_all_found)
  then show "case remove options d c of (e, d', c') \<Rightarrow>
         e = None \<and> documents c' (doc_id d) = None \<and>
         filter (\<lambda>p. ref p = doc_id d) (patch_colls c' (patchModelName options (modelName d))) = []"
    unfolding r by simp
next
  assume a: "distinct (map fst opts) \<and> (''removePatches'', OBool False) \<in> set opts"
  then have "map_of (patchHistory_options opts) ''removePatches'' = Some (OBool False)"
    unfolding patchHistory_options_def
    using merge_options_scalar [of opts "''removePatches''" "OBool False" False] by blast
  then have "\<not> removePatches_on (patchHistory_options opts)" by (simp add: removePatches_on_def)
  then show "case remove (patchHistory_options opts) d c of (e, d', c') \<Rightarrow>
         e = None \<and> documents c' (doc_id d) = None \<and> patch_colls c' = patch_colls c"
    by (simp add: remove_def pre_remove_def)
qed

theorem cascading_removal_witness:
  "(''removePatches'' \<notin> fst ` set ([]::options) \<and> removePatches_on (patchHistory_options [])) \<and>
   (removePatches_on post_options \<and>
    length (patch_colls (db_of post_v3) ''PostPatches'') = 3 \<and>
    (case remove post_options (doc_of post_v3) (db_of post_v3) of (e, d', c') \<Rightarrow>
       e = None \<and> documents c' (doc_id (doc_of post_v3)) = None \<and>
       filter (\<lambda>p. ref p = doc_id (doc_of post_v3))
         (patch_colls c' (patchModelName post_options (modelName (doc_of post_v3)))) = [])) \<and>
   ((distinct (map fst comment_opts) \<and> (''removePatches'', OBool False) \<in> set comment_opts) \<and>
    length (patch_colls (db_of comment_v1) ''CommentPatches'') = 1 \<and>
    (case remove (patchHistory_options comment_opts) (doc_of comment_v1) (db_of comment_v1) of
       (e, d', c') \<Rightarrow>
         e = None \<and> documents c' (doc_id (doc_of comment_v1)) = None \<and>
         patch_colls c' = patch_colls (db_of comment_v1)))"
proof -
  have h1: "''removePatches'' \<notin> fst ` set ([]::options)" by simp
  have h2: "removePatches_on post_options" by code_simp
  have h3a: "distinct (map fst comment_opts)" by (simp add: comment_opts_def)
  have h3b: "(''removePatches'', OBool False) \<in> set comment_opts" by (simp add: comment_opts_def)
  from h3a h3b
  have h3: "distinct (map fst comment_opts) \<and> (''removePatches'', OBool False) \<in> set comment_opts"
    by (rule conjI)
  have n1: "length (patch_colls (db_of post_v3) ''PostPatches'') = 3" by code_simp
  have n2: "length (patch_colls (db_of comment_v1) ''CommentPatches'') = 1" by code_simp
  note t1 = cascading_removal
    [where opts = "[]" and options = post_options and d = "doc_of post_v3" and c = "db_of post_v3"]
  note t2 = cascading_removal
    [where opts = comment_opts and options = post_options and d = "doc_of comment_v1"
       and c = "db_of comment_v1"]
  from t1 [THEN conjunct1] h1 have a: "removePatches_on (patchHistory_options [])" by (rule mp)
  from t1 [THEN conjunct2, THEN conjunct1] h2
  have b: "case remove post_options (doc_of post_v3) (db_of post_v3) of (e, d', c') \<Rightarrow>
       e = None \<and> documents c' (doc_id (doc_of post_v3)) = None \<and>
       filter (\<lambda>p. ref p = doc_id (doc_of post_v3))
         (patch_colls c' (patchModelName post_options (modelName (doc_of post_v3)))) = []"
    by (rule mp)
  from t2 [THEN conjunct2, THEN conjunct2] h3
  have c: "case remove (patchHistory_options comment_opts) (doc_of comment_v1) (db_of comment_v1) of
       (e, d', c') \<Rightarrow>
         e = None \<and> documents c' (doc_id (doc_of comment_v1)) = None \<and>
         patch_colls c' = patch_colls (db_of comment_v1)"
    by (rule mp)
  from h1 a h2 n1 b h3a h3b n2 c show ?thesis by (intro conjI)
qed

section \<open>Rollback rejections\<close>

lemma rollback_latest:
  assumes "count_from (doc_id d) t (patch_colls c (patchModelName opts (modelName d))) = 1"
  shows "case rollback w opts sch t dat d c of (e, d', dat', c') \<Rightarrow>
           e = Some (RollbackError ''rollback to latest patch'') \<and> d' = d \<and> dat' = dat \<and>
           patch_colls c' = patch_colls c \<and> documents c' = documents c"
proof -
  obtain c1 where g: "getPatchModel opts (modelName d) c = (patchModelName opts (modelName d), c1)"
    and c1: "patch_colls c1 = patch_colls c" "documents c1 = documents c"
    using getPatchModel_eq by blast
  show ?thesis using assms g c1 by (simp add: rollback_def)
qed

lemma only_patch_count:
  assumes "filter (\<lambda>p. ref p = r) ps = [p]"
  shows "count_from r (pid p) ps = 1"
proof -
  have "filter (\<lambda>q. ref q = r \<and> pid p \<le> pid q) ps
      = filter (\<lambda>q. pid p \<le> pid q) (filter (\<lambda>q. ref q = r) ps)"
    by (simp add: conj_commute)
  with assms show ?thesis by (simp add: count_from_def)
qed

text \<open>
  Claim C2. When exactly one patch of the document has an id at or above the target,
  \<open>rollback\<close> rejects with a RollbackError and nothing is replayed or saved: the document,
  the caller's data, the patch collections and the stored documents are as before. In
  particular a document whose only patch is its creation patch rejects a rollback to it.
\<close>

theorem rollback_to_latest_rejected:
  "(count_from (doc_id d) t (patch_colls c (patchModelName opts (modelName d))) = 1 \<longrightarrow>
      (case rollback w opts sch t dat d c of (e, d', dat', c') \<Rightarrow>
         e = Some (RollbackError ''rollback to latest patch'') \<and> d' = d \<and> dat' = dat \<and>
         patch_colls c' = patch_colls c \<and> documents c' = documents c)) \<and>
   (filter (\<lambda>q. ref q = doc_id d) (patch_colls c (patchModelName opts (modelName d))) = [p] \<longrightarrow>
      (case rollback w opts sch (pid p) dat d c of (e, d', dat', c') \<Rightarrow>
         e = Some (RollbackError ''rollback to latest patch'') \<and> d' = d \<and> dat' = dat \<and>
         patch_colls c' = patch_colls c \<and> documents c' = documents c))"
proof (intro conjI impI)
  assume "count_from (doc_id d) t (patch_colls c (patchModelName opts (modelName d))) = 1"
  then show "case rollback w opts sch t dat d c of (e, d', dat', c') \<Rightarrow>
         e = Some (RollbackError ''rollback to latest patch'') \<and> d' = d \<and> dat' = dat \<and>
         patch_colls c' = patch_colls c \<and> documents c' = documents c"
    by (rule rollback_latest)
next
  assume "filter (\<lambda>q. ref q = doc_id d) (patch_colls c (patchModelName opts (modelName d))) = [p]"
  then have "count_from (doc_id d) (pid p) (patch_colls c (patchModelName opts (modelName d))) = 1"
    by (rule only_patch_count)
  then show "case rollback w opts sch (pid p) dat d c of (e, d', dat', c') \<Rightarrow>
         e = Some (RollbackError ''rollback to latest patch'') \<and> d' = d \<and> dat' = dat \<and>
         patch_colls c' = patch_colls c \<and> documents c' = documents c"
    by (rule rollback_latest)
qed

theorem rollback_to_latest_rejected_witness:
  "(count_from (doc_id (doc_of post_v3)) 4
      (patch_colls (db_of post_v3) (patchModelName post_options (modelName (doc_of post_v3)))) = 1 \<and>
    (case rollback None post_options PostSchema 4 None (doc_of post_v3) (db_of post_v3) of
       (e, d', dat', c') \<Rightarrow>
         e = Some (RollbackError ''rollback to latest patch'') \<and> d' = doc_of post_v3 \<and> dat' = None \<and>
         patch_colls c' = patch_colls (db_of post_v3) \<and> documents c' = documents (db_of post_v3))) \<and>
   (filter (\<lambda>q. ref q = doc_id (doc_of post_v1))
      (patch_colls (db_of post_v1) (patchModelName post_options (modelName (doc_of post_v1))))
      = [\<lparr>pid = 2, date = 0, ops = [Add ''title'' (JStr ''version 1'')], ref = 1, included = []\<rparr>] \<and>
    (case rollback None post_options PostSchema 2 None (doc_of post_v1) (db_of post_v1) of
       (e, d', dat', c') \<Rightarrow>
         e = Some (RollbackError ''rollback to latest patch'') \<and> d' = doc_of post_v1 \<and> dat' = None \<and>
         patch_colls c' = patch_colls (db_of post_v1) \<and> documents c' = documents (db_of post_v1)))"
proof -
  let ?p = "\<lparr>pid = 2, date = 0, ops = [Add ''title'' (JStr ''version 1'')], ref = 1, included = []\<rparr>"
  have h1: "count_from (doc_id (doc_of post_v3)) 4
      (patch_colls (db_of post_v3) (patchModelName post_options (modelName (doc_of post_v3)))) = 1"
    by code_simp
  have h2: "filter (\<lambda>q. ref q = doc_id (doc_of post_v1))
      (patch_colls (db_of post_v1) (patchModelName post_options (modelName (doc_of post_v1)))) = [?p]"
    by code_simp
  note t1 = rollback_to_latest_rejected
    [where d = "doc_of post_v3" and t = 4 and c = "db_of post_v3" and opts = post_options
       and sch = PostSchema and dat = None and p = ?p, THEN conjunct1]
  note t2 = rollback_to_latest_rejected
    [where d = "doc_of post_v1" and t = 4 and c = "db_of post_v1" and opts = post_options
       and sch = PostSchema and dat = None and p = ?p, THEN conjunct2]
  from t1 h1 have a: "case rollback None post_options PostSchema 4 None (doc_of post_v3) (db_of post_v3) of
       (e, d', dat', c') \<Rightarrow>
         e = Some (RollbackError ''rollback to latest patch'') \<and> d' = doc_of post_v3 \<and> dat' = None \<and>
         patch_colls c' = patch_colls (db_of post_v3) \<and> documents c' = documents (db_of post_v3)"
    by (rule mp)
  from t2 h2 have b: "case rollback None post_options PostSchema (pid ?p) None (doc_of post_v1) (db_of post_v1) of
       (e, d', dat', c') \<Rightarrow>
         e = Some (RollbackError ''rollback to latest patch'') \<and> d' = doc_of post_v1 \<and> dat' = None \<and>
         patch_colls c' = patch_colls (db_of post_v1) \<and> documents c' = documents (db_of post_v1)"
    by (rule mp)
  then have b': "case rollback None post_options PostSchema 2 None (doc_of post_v1) (db_of post_v1) of
       (e, d', dat', c') \<Rightarrow>
         e = Some (RollbackError ''rollback to latest patch'') \<and> d' = doc_of post_v1 \<and> dat' = None \<and>
         patch_colls c' = patch_colls (db_of post_v1) \<and> documents c' = documents (db_of post_v1)"
    by simp
  from h1 a h2 b' show ?thesis by (intro conjI)
qed

text \<open>
  Claim C3. When no patch of the document has the target id, \<open>rollback\<close> rejects with a
  RollbackError and leaves the document and the patch collections unchanged.
\<close>

theorem rollback_nonexistent_rejected:
  assumes "\<not> list_ex (\<lambda>p. ref p = doc_id d \<and> pid p = t)
               (patch_colls c (patchModelName opts (modelName d)))"
  shows "case rollback w opts sch t dat d c of (e, d', dat', c') \<Rightarrow>
           (e = Some (RollbackError ''rollback to latest patch'') \<or>
            e = Some (RollbackError ''patch doesn't exist'')) \<and>
           d' = d \<and> dat' = dat \<and> patch_colls c' = patch_colls c \<and> documents c' = documents c"
proof -
  obtain c1 where g: "getPatchModel opts (modelName d) c = (patchModelName opts (modelName d), c1)"
      "getPatchModel opts (modelName d) c1 = (patchModelName opts (modelName d), c1)"
    and c1: "patch_colls c1 = patch_colls c" "documents c1 = documents c"
    using getPatchModel_eq by blast
  have "\<not> list_ex (\<lambda>p. pid p = t)
          (find_upto (doc_id d) t (patch_colls c (patchModelName opts (modelName d))))"
    using assms by (auto simp: find_upto_def list_ex_iff)
  then show ?thesis using g c1 by (simp add: rollback_def)
qed

theorem rollback_nonexistent_rejected_witness:
  "\<not> list_ex (\<lambda>p. ref p = doc_id (doc_of post_v3) \<and> pid p = 9)
       (patch_colls (db_of post_v3) (patchModelName post_options (modelName (doc_of post_v3)))) \<and>
   (case rollback None post_options PostSchema 9 None (doc_of post_v3) (db_of post_v3) of
      (e, d', dat', c') \<Rightarrow>
        (e = Some (RollbackError ''rollback to latest patch'') \<or>
         e = Some (RollbackError ''patch doesn't exist'')) \<and>
        d' = doc_of post_v3 \<and> dat' = None \<and>
        patch_colls c' = patch_colls (db_of post_v3) \<and> documents c' = documents (db_of post_v3))"
proof -
  have h: "\<not> list_ex (\<lambda>p. ref p = doc_id (doc_of post_v3) \<and> pid p = 9)
       (patch_colls (db_of post_v3) (patchModelName post_options (modelName (doc_of post_v3))))"
    by code_simp
  from h rollback_nonexistent_rejected [OF h, where sch = PostSchema and dat = None] show ?thesis by (rule conjI)
qed

section \<open>The save path\<close>

lemma filter_update_dropped:
  "\<not> P k \<Longrightarrow> filter (\<lambda>p. P (fst p)) (AList.update k v al) = filter (\<lambda>p. P (fst p)) al"
  by (induction al) auto

lemma delete_filter_fst: "AList.delete k al = filter (\<lambda>p. fst p \<noteq> k) al"
  by (induction al) auto

lemma data_filter: "data sch d = filter (\<lambda>p. fst p \<notin> set (stripped sch)) (vals d)"
  by (cases "timestamps sch")
     (auto simp: data_def toObject_def stripped_def delete_filter_fst Let_def intro: filter_cong)

lemma map_of_filter_fst:
  "map_of (filter (\<lambda>p. P (fst p)) al) k = (if P k then map_of al k else None)"
  by (induction al) auto

lemma map_of_data:
  "map_of (data sch d) k = (if k \<in> set (stripped sch) then None else map_of (vals d) k)"
  using map_of_filter_fst [of "\<lambda>k. k \<notin> set (stripped sch)" "vals d" k]
  by (simp add: data_filter)

lemma distinct_data: "distinct (map fst (vals d)) \<Longrightarrow> distinct (map fst (data sch d))"
  by (simp add: data_filter distinct_map_filter)

lemma data_stamp: "data sch (stamp sch now d) = data sch d"
proof (cases "timestamps sch")
  case None
  then show ?thesis by (simp add: stamp_def)
next
  case (Some cu)
  obtain c u where cu: "cu = (c, u)" by (cases cu)
  let ?P = "\<lambda>k. k \<notin> set (stripped sch)"
  have c: "\<not> ?P (or_default c ''createdAt'')" and u: "\<not> ?P (or_default u ''updatedAt'')"
    using Some cu by (simp_all add: stripped_def)
  have dc: "filter (\<lambda>p. ?P (fst p)) (AList.update (or_default c ''createdAt'') v al)
      = filter (\<lambda>p. ?P (fst p)) al" for v and al :: obj
    using c by (rule filter_update_dropped)
  have du: "filter (\<lambda>p. ?P (fst p)) (AList.update (or_default u ''updatedAt'') v al)
      = filter (\<lambda>p. ?P (fst p)) al" for v and al :: obj
    using u by (rule filter_update_dropped)
  have "filter (\<lambda>p. ?P (fst p)) (vals (stamp sch now d)) = filter (\<lambda>p. ?P (fst p)) (vals d)"
  proof (cases "isNew d")
    case True
    then have "vals (stamp sch now d) = AList.update (or_default u ''updatedAt'') (JNum (int now))
        (AList.update (or_default c ''createdAt'') (JNum (int now)) (vals d))"
      using Some cu by (simp add: stamp_def Let_def)
    then show ?thesis by (simp only: du dc)
  next
    case False
    then have "vals (stamp sch now d) = AList.update (or_default u ''updatedAt'') (JNum (int now)) (vals d)"
      using Some cu by (simp add: stamp_def Let_def)
    then show ?thesis by (simp only: du)
  qed
  then show ?thesis by (simp only: data_filter)
qed

lemma stamp_fields:
  "isNew (stamp sch now d) = isNew d" "original (stamp sch now d) = original d"
  "doc_id (stamp sch now d) = doc_id d" "modelName (stamp sch now d) = modelName d"
  "props (stamp sch now d) = props d"
  by (simp_all add: stamp_def Let_def split: option.splits prod.splits)

lemma save_ops_stamp: "save_ops sch (stamp sch now d) = save_ops sch d"
  by (simp add: save_ops_def data_stamp stamp_fields split: option.splits)

lemma data_snapshot: "data sch (snapshot sch d) = data sch d"
  by (simp add: data_def toObject_def snapshot_def)

lemma data_isNew: "data sch (d\<lparr>isNew := b\<rparr>) = data sch d"
  by (simp add: data_def toObject_def)

text \<open>What a save does, by the outcome of the hook.\<close>

lemma save_hook_error:
  assumes "save_ops sch d = Inl e"
  shows "save w opts sch d c = (Some e, stamp sch (clock c) d, c)"
  using assms by (simp add: save_def pre_save_def save_ops_stamp Let_def)

lemma save_no_diff:
  assumes "save_ops sch d = Inr []"
  shows "save w opts sch d c =
           (case w of
              Some e \<Rightarrow> (Some e, stamp sch (clock c) d, c)
            | None \<Rightarrow>
                (None, snapshot sch ((stamp sch (clock c) d)\<lparr>isNew := False\<rparr>),
                 c\<lparr>documents := (documents c)(doc_id d \<mapsto> vals (stamp sch (clock c) d))\<rparr>))"
  using assms
  by (cases w) (simp_all add: save_def pre_save_def save_ops_stamp stamp_fields Let_def)

lemma save_create_fails:
  assumes "save_ops sch d = Inr os" and "os \<noteq> []"
    and "patches_create (patchModelName opts (modelName d)) os (doc_id d)
           (include_data opts (stamp sch (clock c) d)) (snd (getPatchModel opts (modelName d) c)) = Inl e"
  shows "save w opts sch d c = (Some e, stamp sch (clock c) d, snd (getPatchModel opts (modelName d) c))"
proof -
  obtain c1 where g: "getPatchModel opts (modelName d) c = (patchModelName opts (modelName d), c1)"
    using getPatchModel_eq by blast
  show ?thesis using assms g
    by (simp add: save_def pre_save_def save_ops_stamp stamp_fields Let_def)
qed

lemma save_create_ok:
  assumes "save_ops sch d = Inr os" and "os \<noteq> []"
    and "patches_create (patchModelName opts (modelName d)) os (doc_id d)
           (include_data opts (stamp sch (clock c) d)) (snd (getPatchModel opts (modelName d) c)) = Inr c2"
  shows "save w opts sch d c =
           (case w of
              Some e \<Rightarrow> (Some e, stamp sch (clock c) d, c2)
            | None \<Rightarrow>
                (None, snapshot sch ((stamp sch (clock c) d)\<lparr>isNew := False\<rparr>),
                 c2\<lparr>documents := (documents c2)(doc_id d \<mapsto> vals (stamp sch (clock c) d))\<rparr>))"
proof -
  obtain c1 where g: "getPatchModel opts (modelName d) c = (patchModelName opts (modelName d), c1)"
    using getPatchModel_eq by blast
  show ?thesis using assms g
    by (cases w) (simp_all add: save_def pre_save_def save_ops_stamp stamp_fields Let_def)
qed

lemma patches_create_ok:
  assumes "patches_create pm os r dat c = Inr c2"
  shows "\<exists>p. patch_colls c2 = (patch_colls c)(pm := patch_colls c pm @ [p]) \<and>
             ops p = os \<and> ref p = r \<and> pid p = next_oid c \<and> date p = clock c \<and>
             documents c2 = documents c"
  using assms
  by (auto simp: patches_create_def Let_def split: if_splits list.splits)

lemma save_data: "data sch (doc_of (save w opts sch d c)) = data sch d"
proof (cases "save_ops sch d")
  case (Inl e)
  then show ?thesis by (simp add: save_hook_error doc_of_def data_stamp)
next
  case (Inr os)
  show ?thesis
  proof (cases "os = []")
    case True
    with Inr show ?thesis
      by (simp add: save_no_diff doc_of_def data_snapshot data_isNew data_stamp split: option.splits)
  next
    case False
    show ?thesis
    proof (cases "patches_create (patchModelName opts (modelName d)) os (doc_id d)
           (include_data opts (stamp sch (clock c) d)) (snd (getPatchModel opts (modelName d) c))")
      case (Inl e)
      with Inr False show ?thesis
        by (simp add: save_create_fails doc_of_def data_stamp)
    next
      case (Inr c2)
      with \<open>save_ops sch d = Inr os\<close> False show ?thesis
        by (simp add: save_create_ok doc_of_def data_snapshot data_isNew data_stamp
              split: option.splits)
    qed
  qed
qed

text \<open>
  The effect of a save on the patch collections, the snapshot and the store: a successful
  save, or a rejected one, which has stored a patch only when the store rejected the write of
  the document after the hook.
\<close>

lemma save_effect:
  "(err_of (save w opts sch d c) = None \<and> w = None \<and>
    original (doc_of (save w opts sch d c)) = Some (data sch d) \<and>
    isNew (doc_of (save w opts sch d c)) = False \<and>
    documents (db_of (save w opts sch d c)) (doc_id d) = Some (vals (doc_of (save w opts sch d c))) \<and>
    ((\<exists>p. patch_colls (db_of (save w opts sch d c)) =
            (patch_colls c)(patchModelName opts (modelName d) :=
               patch_colls c (patchModelName opts (modelName d)) @ [p]) \<and>
          ref p = doc_id d \<and> ops p \<noteq> [] \<and> save_ops sch d = Inr (ops p) \<and>
          pid p = next_oid c \<and> date p = clock c) \<or>
     (patch_colls (db_of (save w opts sch d c)) = patch_colls c \<and> save_ops sch d = Inr []))) \<or>
   (err_of (save w opts sch d c) \<noteq> None \<and>
    original (doc_of (save w opts sch d c)) = original d \<and>
    isNew (doc_of (save w opts sch d c)) = isNew d \<and>
    documents (db_of (save w opts sch d c)) = documents c \<and>
    (patch_colls (db_of (save w opts sch d c)) = patch_colls c \<or>
     (\<exists>p. patch_colls (db_of (save w opts sch d c)) =
            (patch_colls c)(patchModelName opts (modelName d) :=
               patch_colls c (patchModelName opts (modelName d)) @ [p]) \<and>
          ref p = doc_id d \<and> ops p \<noteq> [] \<and> save_ops sch d = Inr (ops p) \<and>
          pid p = next_oid c \<and> date p = clock c \<and>
          err_of (save w opts sch d c) = w)))"
proof (cases "save_ops sch d")
  case (Inl e)
  then show ?thesis
    by (simp add: save_hook_error err_of_def doc_of_def db_of_def stamp_fields)
next
  case (Inr os)
  obtain c1 where g: "getPatchModel opts (modelName d) c = (patchModelName opts (modelName d), c1)"
    and c1: "patch_colls c1 = patch_colls c" "documents c1 = documents c" "clock c1 = clock c"
    using getPatchModel_eq by blast
  show ?thesis
  proof (cases "os = []")
    case True
    with Inr show ?thesis
      by (cases w)
         (simp_all add: save_no_diff err_of_def doc_of_def db_of_def snapshot_def data_isNew
            data_stamp stamp_fields)
  next
    case False
    show ?thesis
    proof (cases "patches_create (patchModelName opts (modelName d)) os (doc_id d)
           (include_data opts (stamp sch (clock c) d)) (snd (getPatchModel opts (modelName d) c))")
      case (Inl e)
      with Inr False g c1 show ?thesis
        by (simp add: save_create_fails err_of_def doc_of_def db_of_def stamp_fields)
    next
      case (Inr c2)
      from patches_create_ok [OF Inr] g c1
      obtain p where p: "patch_colls c2 = (patch_colls c)(patchModelName opts (modelName d) :=
               patch_colls c (patchModelName opts (modelName d)) @ [p])"
        "ops p = os" "ref p = doc_id d" "pid p = next_oid c1" "date p = clock c"
        "documents c2 = documents c"
        by auto
      have n: "next_oid c1 = next_oid c" using g by (auto simp: getPatchModel_def Let_def split: if_splits)
      from Inr \<open>save_ops sch d = Inr os\<close> False p n show ?thesis
        by (cases w)
           (auto simp: save_create_ok err_of_def doc_of_def db_of_def snapshot_def data_isNew
              data_stamp stamp_fields intro!: exI [of _ p])
    qed
  qed
qed

text \<open>A loaded document is not new and carries the snapshot of its data, taken on init.\<close>

lemma findById_snapshot:
  assumes "findById sch name i c = Some d"
  shows "documents c i = Some (vals d) \<and> \<not> isNew d \<and> original d = Some (data sch d) \<and>
         doc_id d = i \<and> modelName d = name"
  using assms by (auto simp: findById_def snapshot_def data_def toObject_def split: option.splits)

lemma findById_missing: "documents c i = None \<Longrightarrow> findById sch name i c = None"
  by (simp add: findById_def)

lemma findById_saved:
  assumes "err_of (save w opts sch d c) = None"
  shows "\<exists>d'. findById sch (modelName d) (doc_id d) (db_of (save w opts sch d c)) = Some d' \<and>
              vals d' = vals (doc_of (save w opts sch d c)) \<and>
              original d' = Some (data sch d')"
proof -
  from save_effect [of w opts sch d c] assms
  have "documents (db_of (save w opts sch d c)) (doc_id d) = Some (vals (doc_of (save w opts sch d c)))"
    by auto
  then show ?thesis
    by (simp add: findById_def snapshot_def data_def toObject_def)
qed

section \<open>Claims about saving\<close>

lemma save_ops_new:
  assumes "isNew d" and "distinct (map fst (vals d))"
  shows "save_ops sch d = Inr (map (\<lambda>(k, v). Add k v) (data sch d))"
  using assms by (simp add: save_ops_def compare_empty_mirror distinct_data)

text \<open>
  Claim C5. For a new document the diff baseline is the empty object, so the diff is one
  \<open>add\<close> per field of \<open>data()\<close>, and a successful save appends one patch with these
  operations; creating a post \<open>{title: "foo"}\<close> leaves exactly one patch, with the single
  operation \<open>add /title "foo"\<close>.
\<close>

theorem creation_patch:
  "(isNew d \<and> distinct (map fst (vals d)) \<longrightarrow>
      save_ops sch d = Inr (map (\<lambda>(k, v). Add k v) (data sch d))) \<and>
   (isNew d \<and> distinct (map fst (vals d)) \<and> data sch d \<noteq> [] \<and> err_of (save w opts sch d c) = None \<longrightarrow>
      (\<exists>p. patch_colls (db_of (save w opts sch d c)) (patchModelName opts (modelName d)) =
              patch_colls c (patchModelName opts (modelName d)) @ [p] \<and>
           ref p = doc_id d \<and> ops p = map (\<lambda>(k, v). Add k v) (data sch d))) \<and>
   patch_colls (db_of (create None post_options PostSchema ''Post'' [(''title'', JStr ''foo'')] empty_db))
       ''PostPatches'' =
     [\<lparr>pid = 2, date = 0, ops = [Add ''title'' (JStr ''foo'')], ref = 1, included = []\<rparr>] \<and>
   map op_path [Add ''title'' (JStr ''foo'')] = [''/title'']"
proof (intro conjI impI)
  assume "isNew d \<and> distinct (map fst (vals d))"
  then show "save_ops sch d = Inr (map (\<lambda>(k, v). Add k v) (data sch d))"
    by (simp add: save_ops_new)
next
  assume a: "isNew d \<and> distinct (map fst (vals d)) \<and> data sch d \<noteq> [] \<and>
    err_of (save w opts sch d c) = None"
  then have os: "save_ops sch d = Inr (map (\<lambda>(k, v). Add k v) (data sch d))"
    by (simp add: save_ops_new)
  from a have ne: "map (\<lambda>(k, v). Add k v) (data sch d) \<noteq> []" by simp
  from save_effect [of w opts sch d c] a os ne
  obtain p where "patch_colls (db_of (save w opts sch d c)) =
            (patch_colls c)(patchModelName opts (modelName d) :=
               patch_colls c (patchModelName opts (modelName d)) @ [p])"
    and "ref p = doc_id d" and "save_ops sch d = Inr (ops p)"
    by auto
  with os show "\<exists>p. patch_colls (db_of (save w opts sch d c)) (patchModelName opts (modelName d)) =
              patch_colls c (patchModelName opts (modelName d)) @ [p] \<and>
           ref p = doc_id d \<and> ops p = map (\<lambda>(k, v). Add k v) (data sch d)"
    by (intro exI [of _ p]) simp
next
  show "patch_colls (db_of (create None post_options PostSchema ''Post'' [(''title'', JStr ''foo'')] empty_db))
       ''PostPatches'' =
     [\<lparr>pid = 2, date = 0, ops = [Add ''title'' (JStr ''foo'')], ref = 1, included = []\<rparr>]"
    by code_simp
next
  show "map op_path [Add ''title'' (JStr ''foo'')] = [''/title'']"
    by code_simp
qed

theorem creation_patch_witness:
  "(isNew (fst new_post) \<and> distinct (map fst (vals (fst new_post))) \<and>
    data PostSchema (fst new_post) \<noteq> [] \<and>
    err_of (save None post_options PostSchema (fst new_post) (snd new_post)) = None) \<and>
   save_ops PostSchema (fst new_post) =
     Inr (map (\<lambda>(k, v). Add k v) (data PostSchema (fst new_post))) \<and>
   (\<exists>p. patch_colls (db_of (save None post_options PostSchema (fst new_post) (snd new_post)))
           (patchModelName post_options (modelName (fst new_post))) =
         patch_colls (snd new_post) (patchModelName post_options (modelName (fst new_post))) @ [p] \<and>
         ref p = doc_id (fst new_post) \<and>
         ops p = map (\<lambda>(k, v). Add k v) (data PostSchema (fst new_post))) \<and>
   data PostSchema (fst new_post) = [(''title'', JStr ''foo'')]"
proof -
  have h1: "isNew (fst new_post)" by code_simp
  have h2: "distinct (map fst (vals (fst new_post)))" by code_simp
  have h3: "data PostSchema (fst new_post) \<noteq> []" by code_simp
  have h4: "err_of (save None post_options PostSchema (fst new_post) (snd new_post)) = None" by code_simp
  have v: "data PostSchema (fst new_post) = [(''title'', JStr ''foo'')]" by code_simp
  note t = creation_patch [where d = "fst new_post" and sch = PostSchema and opts = post_options
      and c = "snd new_post"]
  from t [THEN conjunct1] h1 h2
  have a: "save_ops PostSchema (fst new_post) =
     Inr (map (\<lambda>(k, v). Add k v) (data PostSchema (fst new_post)))"
    by blast
  from t [THEN conjunct2, THEN conjunct1] h1 h2 h3 h4
  have b: "\<exists>p. patch_colls (db_of (save None post_options PostSchema (fst new_post) (snd new_post)))
           (patchModelName post_options (modelName (fst new_post))) =
         patch_colls (snd new_post) (patchModelName post_options (modelName (fst new_post))) @ [p] \<and>
         ref p = doc_id (fst new_post) \<and>
         ops p = map (\<lambda>(k, v). Add k v) (data PostSchema (fst new_post))"
    by blast
  from h1 h2 h3 h4 a b v show ?thesis by (intro conjI)
qed

text \<open>
  Claim C6. Saving a loaded or saved document whose \<open>data()\<close> has the content of its
  snapshot computes an empty diff, creates no patch and leaves every patch collection as it
  was. The hook passes the save on, so that the outcome of the save is the store's answer to
  the write of the document; the write accepted, the save completes and the document is
  written.
\<close>

theorem unchanged_save_no_patch:
  assumes "\<not> isNew d" and "original d = Some s" and "map_of s = map_of (data sch d)"
    and "distinct (map fst s)" and "distinct (map fst (vals d))"
  shows "save_ops sch d = Inr [] \<and>
         err_of (save w opts sch d c) = w \<and>
         patch_colls (db_of (save w opts sch d c)) = patch_colls c \<and>
         documents (db_of (save None opts sch d c)) (doc_id d)
           = Some (vals (doc_of (save None opts sch d c)))"
proof -
  have "jsonpatch_compare s (data sch d) = []"
    using assms(3,4,5) by (simp add: compare_same_distinct distinct_data)
  with assms(1,2) have os: "save_ops sch d = Inr []" by (simp add: save_ops_def)
  have "patch_colls (db_of (save w opts sch d c)) = patch_colls c"
    and "err_of (save w opts sch d c) = w"
    by (cases w; simp add: save_no_diff [OF os] db_of_def err_of_def)+
  with os show ?thesis
    by (simp add: save_no_diff [OF os] err_of_def db_of_def doc_of_def snapshot_def)
qed

theorem unchanged_save_no_patch_witness:
  "(\<not> isNew (doc_of post_v2) \<and>
    original (doc_of post_v2) = Some [(''title'', JStr ''version 2'')] \<and>
    map_of [(''title'', JStr ''version 2'')] = map_of (data PostSchema (doc_of post_v2)) \<and>
    distinct (map fst [(''title'', JStr ''version 2'')]) \<and>
    distinct (map fst (vals (doc_of post_v2)))) \<and>
   save_ops PostSchema (doc_of post_v2) = Inr [] \<and>
   err_of (save None post_options PostSchema (doc_of post_v2) (tick 1 (db_of post_v2))) = None \<and>
   patch_colls (db_of (save None post_options PostSchema (doc_of post_v2) (tick 1 (db_of post_v2))))
     = patch_colls (tick 1 (db_of post_v2)) \<and>
   documents (db_of (save None post_options PostSchema (doc_of post_v2) (tick 1 (db_of post_v2))))
       (doc_id (doc_of post_v2))
     = Some (vals (doc_of (save None post_options PostSchema (doc_of post_v2) (tick 1 (db_of post_v2)))))"
proof -
  have h1: "\<not> isNew (doc_of post_v2)" by code_simp
  have h2: "original (doc_of post_v2) = Some [(''title'', JStr ''version 2'')]" by code_simp
  have v: "data PostSchema (doc_of post_v2) = [(''title'', JStr ''version 2'')]" by code_simp
  have h3: "map_of [(''title'', JStr ''version 2'')] = map_of (data PostSchema (doc_of post_v2))"
    by (simp only: v)
  have h4: "distinct (map fst [(''title'', JStr ''version 2'')])" by simp
  have h5: "distinct (map fst (vals (doc_of post_v2)))" by code_simp
  note t = unchanged_save_no_patch [OF h1 h2 h3 h4 h5, where opts = post_options
      and c = "tick 1 (db_of post_v2)" and w = None]
  show ?thesis
    by (rule conjI [OF conjI [OF h1 conjI [OF h2 conjI [OF h3 conjI [OF h4 h5]]]] t])
qed

text \<open>
  Claim C7, as amended. When creating the patch fails, the save fails with that error, the
  document is not written, the snapshot is not updated and no patch is stored. Whenever a save
  fails, no document is written and the snapshot stays as it was: the snapshot is refreshed
  only by a successful save, which also writes the document and has appended the patch of
  its diff unless the diff was empty. A save whose patch was created and whose write of the
  document the store then rejects fails with the store's error and leaves that patch stored.
\<close>

theorem failed_patch_fails_save:
  "(save_ops sch d = Inr os \<and> os \<noteq> [] \<and>
    patches_create (patchModelName opts (modelName d)) os (doc_id d)
      (include_data opts (stamp sch (clock c) d)) (snd (getPatchModel opts (modelName d) c)) = Inl e \<longrightarrow>
      err_of (save w opts sch d c) = Some e \<and>
      original (doc_of (save w opts sch d c)) = original d \<and>
      isNew (doc_of (save w opts sch d c)) = isNew d \<and>
      documents (db_of (save w opts sch d c)) = documents c \<and>
      patch_colls (db_of (save w opts sch d c)) = patch_colls c) \<and>
   (err_of (save w opts sch d c) \<noteq> None \<longrightarrow>
      original (doc_of (save w opts sch d c)) = original d \<and>
      isNew (doc_of (save w opts sch d c)) = isNew d \<and>
      documents (db_of (save w opts sch d c)) = documents c) \<and>
   (err_of (save w opts sch d c) = None \<longrightarrow>
      original (doc_of (save w opts sch d c)) = Some (data sch (doc_of (save w opts sch d c))) \<and>
      documents (db_of (save w opts sch d c)) (doc_id d) = Some (vals (doc_of (save w opts sch d c))) \<and>
      ((\<exists>p. patch_colls (db_of (save w opts sch d c)) =
              (patch_colls c)(patchModelName opts (modelName d) :=
                 patch_colls c (patchModelName opts (modelName d)) @ [p]) \<and>
            ref p = doc_id d \<and> ops p \<noteq> [] \<and> save_ops sch d = Inr (ops p)) \<or>
       (patch_colls (db_of (save w opts sch d c)) = patch_colls c \<and> save_ops sch d = Inr []))) \<and>
   (save_ops sch d = Inr os \<and> os \<noteq> [] \<and>
    \<not> isl (patches_create (patchModelName opts (modelName d)) os (doc_id d)
             (include_data opts (stamp sch (clock c) d)) (snd (getPatchModel opts (modelName d) c))) \<longrightarrow>
      err_of (save (Some e) opts sch d c) = Some e \<and>
      original (doc_of (save (Some e) opts sch d c)) = original d \<and>
      documents (db_of (save (Some e) opts sch d c)) = documents c \<and>
      (\<exists>p. patch_colls (db_of (save (Some e) opts sch d c)) =
              (patch_colls c)(patchModelName opts (modelName d) :=
                 patch_colls c (patchModelName opts (modelName d)) @ [p]) \<and>
           ref p = doc_id d \<and> ops p = os))"
proof (intro conjI)
  show "save_ops sch d = Inr os \<and> os \<noteq> [] \<and>
    patches_create (patchModelName opts (modelName d)) os (doc_id d)
      (include_data opts (stamp sch (clock c) d)) (snd (getPatchModel opts (modelName d) c)) = Inl e \<longrightarrow>
      err_of (save w opts sch d c) = Some e \<and>
      original (doc_of (save w opts sch d c)) = original d \<and>
      isNew (doc_of (save w opts sch d c)) = isNew d \<and>
      documents (db_of (save w opts sch d c)) = documents c \<and>
      patch_colls (db_of (save w opts sch d c)) = patch_colls c"
    by (simp add: save_create_fails err_of_def doc_of_def db_of_def stamp_fields
          getPatchModel_colls getPatchModel_documents)
next
  show "err_of (save w opts sch d c) \<noteq> None \<longrightarrow>
      original (doc_of (save w opts sch d c)) = original d \<and>
      isNew (doc_of (save w opts sch d c)) = isNew d \<and>
      documents (db_of (save w opts sch d c)) = documents c"
    using save_effect [of w opts sch d c] by auto
next
  show "err_of (save w opts sch d c) = None \<longrightarrow>
      original (doc_of (save w opts sch d c)) = Some (data sch (doc_of (save w opts sch d c))) \<and>
      documents (db_of (save w opts sch d c)) (doc_id d) = Some (vals (doc_of (save w opts sch d c))) \<and>
      ((\<exists>p. patch_colls (db_of (save w opts sch d c)) =
              (patch_colls c)(patchModelName opts (modelName d) :=
                 patch_colls c (patchModelName opts (modelName d)) @ [p]) \<and>
            ref p = doc_id d \<and> ops p \<noteq> [] \<and> save_ops sch d = Inr (ops p)) \<or>
       (patch_colls (db_of (save w opts sch d c)) = patch_colls c \<and> save_ops sch d = Inr []))"
    using save_effect [of w opts sch d c] unfolding save_data by auto
next
  show "save_ops sch d = Inr os \<and> os \<noteq> [] \<and>
    \<not> isl (patches_create (patchModelName opts (modelName d)) os (doc_id d)
             (include_data opts (stamp sch (clock c) d)) (snd (getPatchModel opts (modelName d) c))) \<longrightarrow>
      err_of (save (Some e) opts sch d c) = Some e \<and>
      original (doc_of (save (Some e) opts sch d c)) = original d \<and>
      documents (db_of (save (Some e) opts sch d c)) = documents c \<and>
      (\<exists>p. patch_colls (db_of (save (Some e) opts sch d c)) =
              (patch_colls c)(patchModelName opts (modelName d) :=
                 patch_colls c (patchModelName opts (modelName d)) @ [p]) \<and>
           ref p = doc_id d \<and> ops p = os)"
  proof
    assume a: "save_ops sch d = Inr os \<and> os \<noteq> [] \<and>
      \<not> isl (patches_create (patchModelName opts (modelName d)) os (doc_id d)
             (include_data opts (stamp sch (clock c) d)) (snd (getPatchModel opts (modelName d) c)))"
    then obtain c2 where c2: "patches_create (patchModelName opts (modelName d)) os (doc_id d)
             (include_data opts (stamp sch (clock c) d)) (snd (getPatchModel opts (modelName d) c)) = Inr c2"
      by (cases "patches_create (patchModelName opts (modelName d)) os (doc_id d)
             (include_data opts (stamp sch (clock c) d)) (snd (getPatchModel opts (modelName d) c))")
         auto
    from patches_create_ok [OF c2]
    obtain p where p: "patch_colls c2 = (patch_colls c)(patchModelName opts (modelName d) :=
               patch_colls c (patchModelName opts (modelName d)) @ [p])"
        "ops p = os" "ref p = doc_id d" "documents c2 = documents c"
      by (auto simp: getPatchModel_colls getPatchModel_documents)
    from a have s: "save (Some e) opts sch d c = (Some e, stamp sch (clock c) d, c2)"
      by (simp add: save_create_ok [OF _ _ c2])
    show "err_of (save (Some e) opts sch d c) = Some e \<and>
      original (doc_of (save (Some e) opts sch d c)) = original d \<and>
      documents (db_of (save (Some e) opts sch d c)) = documents c \<and>
      (\<exists>p. patch_colls (db_of (save (Some e) opts sch d c)) =
              (patch_colls c)(patchModelName opts (modelName d) :=
                 patch_colls c (patchModelName opts (modelName d)) @ [p]) \<and>
           ref p = doc_id d \<and> ops p = os)"
      unfolding s using p
      by (auto simp: err_of_def doc_of_def db_of_def stamp_fields intro!: exI [of _ p])
  qed
qed

text \<open>
  A new post whose patch is created and whose write the store then rejects: the save fails,
  the patch is stored, and there is neither a snapshot nor a stored document. The save has
  produced a patch without its snapshot.
\<close>

theorem failed_write_keeps_patch_counterexample:
  "err_of (save (Some (PersistenceError ''E11000 duplicate key'')) post_options PostSchema
             (fst new_post) (snd new_post))
     = Some (PersistenceError ''E11000 duplicate key'') \<and>
   map ops (patch_colls (db_of (save (Some (PersistenceError ''E11000 duplicate key'')) post_options
             PostSchema (fst new_post) (snd new_post))) ''PostPatches'')
     = [[Add ''title'' (JStr ''foo'')]] \<and>
   original (doc_of (save (Some (PersistenceError ''E11000 duplicate key'')) post_options PostSchema
             (fst new_post) (snd new_post))) = None \<and>
   documents (db_of (save (Some (PersistenceError ''E11000 duplicate key'')) post_options PostSchema
             (fst new_post) (snd new_post))) (doc_id (fst new_post)) = None"
  by code_simp

theorem failed_patch_fails_save_witness:
  "(save_ops CommentSchema (fst new_comment) = Inr [Add ''text'' (JStr ''wat'')] \<and>
    [Add ''text'' (JStr ''wat'')] \<noteq> [] \<and>
    patches_create (patchModelName comment_options (modelName (fst new_comment)))
      [Add ''text'' (JStr ''wat'')] (doc_id (fst new_comment))
      (include_data comment_options (stamp CommentSchema (clock (snd new_comment)) (fst new_comment)))
      (snd (getPatchModel comment_options (modelName (fst new_comment)) (snd new_comment)))
      = Inl (ValidationError ''user'')) \<and>
   (err_of (save None comment_options CommentSchema (fst new_comment) (snd new_comment))
      = Some (ValidationError ''user'') \<and>
    original (doc_of (save None comment_options CommentSchema (fst new_comment) (snd new_comment)))
      = original (fst new_comment) \<and>
    isNew (doc_of (save None comment_options CommentSchema (fst new_comment) (snd new_comment)))
      = isNew (fst new_comment) \<and>
    documents (db_of (save None comment_options CommentSchema (fst new_comment) (snd new_comment)))
      = documents (snd new_comment) \<and>
    patch_colls (db_of (save None comment_options CommentSchema (fst new_comment) (snd new_comment)))
      = patch_colls (snd new_comment)) \<and>
   (err_of (save None comment_options CommentSchema (fst new_comment) (snd new_comment)) \<noteq> None \<and>
    original (doc_of (save None comment_options CommentSchema (fst new_comment) (snd new_comment)))
      = original (fst new_comment) \<and>
    isNew (doc_of (save None comment_options CommentSchema (fst new_comment) (snd new_comment)))
      = isNew (fst new_comment) \<and>
    documents (db_of (save None comment_options CommentSchema (fst new_comment) (snd new_comment)))
      = documents (snd new_comment)) \<and>
   (err_of (save None post_options PostSchema (fst new_post) (snd new_post)) = None \<and>
    original (doc_of (save None post_options PostSchema (fst new_post) (snd new_post)))
      = Some (data PostSchema (doc_of (save None post_options PostSchema (fst new_post) (snd new_post)))) \<and>
    documents (db_of (save None post_options PostSchema (fst new_post) (snd new_post)))
        (doc_id (fst new_post))
      = Some (vals (doc_of (save None post_options PostSchema (fst new_post) (snd new_post)))) \<and>
    ((\<exists>p. patch_colls (db_of (save None post_options PostSchema (fst new_post) (snd new_post))) =
            (patch_colls (snd new_post))(patchModelName post_options (modelName (fst new_post)) :=
               patch_colls (snd new_post) (patchModelName post_options (modelName (fst new_post))) @ [p]) \<and>
          ref p = doc_id (fst new_post) \<and> ops p \<noteq> [] \<and>
          save_ops PostSchema (fst new_post) = Inr (ops p)) \<or>
     (patch_colls (db_of (save None post_options PostSchema (fst new_post) (snd new_post)))
        = patch_colls (snd new_post) \<and>
      save_ops PostSchema (fst new_post) = Inr []))) \<and>
   (save_ops PostSchema (fst new_post) = Inr [Add ''title'' (JStr ''foo'')] \<and>
    [Add ''title'' (JStr ''foo'')] \<noteq> [] \<and>
    \<not> isl (patches_create (patchModelName post_options (modelName (fst new_post)))
             [Add ''title'' (JStr ''foo'')] (doc_id (fst new_post))
             (include_data post_options (stamp PostSchema (clock (snd new_post)) (fst new_post)))
             (snd (getPatchModel post_options (modelName (fst new_post)) (snd new_post))))) \<and>
   (err_of (save (Some (PersistenceError ''E11000 duplicate key'')) post_options PostSchema
              (fst new_post) (snd new_post))
      = Some (PersistenceError ''E11000 duplicate key'') \<and>
    original (doc_of (save (Some (PersistenceError ''E11000 duplicate key'')) post_options PostSchema
              (fst new_post) (snd new_post))) = original (fst new_post) \<and>
    documents (db_of (save (Some (PersistenceError ''E11000 duplicate key'')) post_options PostSchema
              (fst new_post) (snd new_post))) = documents (snd new_post) \<and>
    (\<exists>p. patch_colls (db_of (save (Some (PersistenceError ''E11000 duplicate key'')) post_options
              PostSchema (fst new_post) (snd new_post))) =
            (patch_colls (snd new_post))(patchModelName post_options (modelName (fst new_post)) :=
               patch_colls (snd new_post) (patchModelName post_options (modelName (fst new_post))) @ [p]) \<and>
         ref p = doc_id (fst new_post) \<and> ops p = [Add ''title'' (JStr ''foo'')]))"
proof -
  let ?os = "[Add ''text'' (JStr ''wat'')]"
  let ?ps = "[Add ''title'' (JStr ''foo'')]"
  let ?e = "PersistenceError ''E11000 duplicate key''"
  have h1: "save_ops CommentSchema (fst new_comment) = Inr ?os" by code_simp
  have h2: "?os \<noteq> []" by simp
  have h3: "patches_create (patchModelName comment_options (modelName (fst new_comment)))
      ?os (doc_id (fst new_comment))
      (include_data comment_options (stamp CommentSchema (clock (snd new_comment)) (fst new_comment)))
      (snd (getPatchModel comment_options (modelName (fst new_comment)) (snd new_comment)))
      = Inl (ValidationError ''user'')"
  proof -
    have "case patches_create (patchModelName comment_options (modelName (fst new_comment)))
        ?os (doc_id (fst new_comment))
        (include_data comment_options (stamp CommentSchema (clock (snd new_comment)) (fst new_comment)))
        (snd (getPatchModel comment_options (modelName (fst new_comment)) (snd new_comment))) of
          Inl e \<Rightarrow> e = ValidationError ''user'' | Inr c2 \<Rightarrow> False"
      by code_simp
    then show ?thesis by (simp split: sum.splits)
  qed
  have h4: "err_of (save None post_options PostSchema (fst new_post) (snd new_post)) = None"
    by code_simp
  have k1: "save_ops PostSchema (fst new_post) = Inr ?ps" by code_simp
  have k2: "?ps \<noteq> []" by simp
  have k3: "\<not> isl (patches_create (patchModelName post_options (modelName (fst new_post)))
             ?ps (doc_id (fst new_post))
             (include_data post_options (stamp PostSchema (clock (snd new_post)) (fst new_post)))
             (snd (getPatchModel post_options (modelName (fst new_post)) (snd new_post))))"
    by code_simp
  note t1 = failed_patch_fails_save [where sch = CommentSchema and d = "fst new_comment"
      and os = ?os and opts = comment_options and c = "snd new_comment"
      and e = "ValidationError ''user''" and w = None]
  note t2 = failed_patch_fails_save [where sch = PostSchema and d = "fst new_post"
      and os = ?ps and opts = post_options and c = "snd new_post"
      and e = ?e and w = None]
  note H = conjI [OF h1 conjI [OF h2 h3]]
  note a = t1 [THEN conjunct1, THEN mp, OF H]
  have a': "err_of (save None comment_options CommentSchema (fst new_comment) (snd new_comment)) \<noteq> None"
    using a by simp
  note b = t1 [THEN conjunct2, THEN conjunct1, THEN mp, OF a']
  note c = t2 [THEN conjunct2, THEN conjunct2, THEN conjunct1, THEN mp, OF h4]
  note K = conjI [OF k1 conjI [OF k2 k3]]
  note f = t2 [THEN conjunct2, THEN conjunct2, THEN conjunct2, THEN mp, OF K]
  show ?thesis
    by (rule conjI [OF H conjI [OF a conjI [OF conjI [OF a' b] conjI [OF conjI [OF h4 c]
          conjI [OF K f]]]]])
qed

section \<open>Merging, replaying and setting\<close>

lemma update_append_fresh: "k \<notin> fst ` set al \<Longrightarrow> AList.update k v al = al @ [(k, v)]"
  by (induction al) auto

lemma foldl_update_fresh:
  "distinct (map fst (acc @ xs)) \<Longrightarrow>
     foldl (\<lambda>a (k, v). AList.update k v a) acc xs = acc @ xs"
proof (induction xs arbitrary: acc)
  case Nil
  then show ?case by simp
next
  case (Cons kv xs)
  obtain k v where kv: "kv = (k, v)" by (cases kv)
  from Cons.prems kv have fresh: "k \<notin> fst ` set acc" by auto
  from Cons.prems kv have "distinct (map fst ((acc @ [(k, v)]) @ xs))" by simp
  from Cons.IH [OF this] fresh kv show ?case by (simp add: update_append_fresh)
qed

lemma merge_fresh: "distinct (map fst xs) \<Longrightarrow> lodash_merge None xs = xs"
  using foldl_update_fresh [of "[]" xs] by (simp add: lodash_merge_def)

lemma map_of_foldl_update:
  "distinct (map fst xs) \<Longrightarrow>
     map_of (foldl (\<lambda>a (k, v). AList.update k v a) acc xs) k =
       (case map_of xs k of Some v \<Rightarrow> Some v | None \<Rightarrow> map_of acc k)"
proof (induction xs arbitrary: acc)
  case Nil
  then show ?case by simp
next
  case (Cons kv xs)
  obtain k' v' where kv: "kv = (k', v')" by (cases kv)
  from Cons.prems kv have d: "distinct (map fst xs)" and fresh: "k' \<notin> fst ` set xs" by auto
  from fresh have none: "map_of xs k' = None" by (simp add: map_of_eq_None_iff)
  show ?case
    using Cons.IH [OF d, of "AList.update k' v' acc"] kv none
    by (auto simp: update_conv' split: option.splits)
qed

lemma map_of_lodash_merge:
  "distinct (map fst source) \<Longrightarrow>
     map_of (lodash_merge object source) k =
       (case map_of source k of
          Some v \<Rightarrow> Some v
        | None \<Rightarrow> map_of (case object of None \<Rightarrow> [] | Some x \<Rightarrow> x) k)"
  by (simp add: lodash_merge_def map_of_foldl_update)

lemma distinct_foldl_update:
  "distinct (map fst acc) \<Longrightarrow> distinct (map fst (foldl (\<lambda>a (k, v). AList.update k v a) acc xs))"
  by (induction xs arbitrary: acc) (auto simp: distinct_update)

lemma distinct_lodash_merge:
  "distinct (map fst x) \<Longrightarrow> distinct (map fst (lodash_merge (Some x) source))"
  by (simp add: lodash_merge_def distinct_foldl_update)

lemma foldl_update_same:
  "(\<forall>k v. (k, v) \<in> set xs \<longrightarrow> map_of acc k = Some v) \<Longrightarrow>
     foldl (\<lambda>a (k, v). AList.update k v a) acc xs = acc"
proof (induction xs)
  case Nil
  then show ?case by simp
next
  case (Cons kv xs)
  obtain k v where kv: "kv = (k, v)" by (cases kv)
  with Cons.prems have "map_of acc k = Some v" by simp
  then have "AList.update k v acc = acc" by (rule update_triv)
  with Cons kv show ?case by simp
qed

lemma lodash_merge_unchanged:
  assumes "distinct (map fst source)"
  shows "lodash_merge (Some x) source = x \<longleftrightarrow>
           (\<forall>k v. map_of source k = Some v \<longrightarrow> map_of x k = Some v)"
proof
  assume eq: "lodash_merge (Some x) source = x"
  show "\<forall>k v. map_of source k = Some v \<longrightarrow> map_of x k = Some v"
  proof (intro allI impI)
    fix k v assume "map_of source k = Some v"
    then have "map_of (lodash_merge (Some x) source) k = Some v"
      using assms by (simp add: map_of_lodash_merge)
    with eq show "map_of x k = Some v" by simp
  qed
next
  assume all: "\<forall>k v. map_of source k = Some v \<longrightarrow> map_of x k = Some v"
  have "\<forall>k v. (k, v) \<in> set source \<longrightarrow> map_of x k = Some v"
    using all assms by simp
  then show "lodash_merge (Some x) source = x"
    by (simp add: lodash_merge_def foldl_update_same)
qed

lemma apply_operation_distinct:
  "distinct (map fst tree) \<Longrightarrow> apply_operation tree p = Inr tree' \<Longrightarrow> distinct (map fst tree')"
  by (cases p) (auto simp: distinct_update distinct_delete split: if_splits)

lemma jsonpatch_apply_distinct:
  "distinct (map fst tree) \<Longrightarrow> jsonpatch_apply tree ps = Inr tree' \<Longrightarrow> distinct (map fst tree')"
proof (induction ps arbitrary: tree)
  case Nil
  then show ?case by simp
next
  case (Cons p ps)
  then show ?case
    by (auto split: sum.splits dest: apply_operation_distinct)
qed

lemma apply_patches_distinct:
  "distinct (map fst st) \<Longrightarrow> apply_patches st ps = Inr st' \<Longrightarrow> distinct (map fst st')"
proof (induction ps arbitrary: st)
  case Nil
  then show ?case by simp
next
  case (Cons p ps)
  then show ?case
    by (auto split: sum.splits dest: jsonpatch_apply_distinct)
qed

lemma set_path_fields:
  "doc_id (set_path sch d kv) = doc_id d" "modelName (set_path sch d kv) = modelName d"
  "isNew (set_path sch d kv) = isNew d" "original (set_path sch d kv) = original d"
  by (simp_all add: set_path_def split: option.splits)

lemma set_doc_fields:
  "doc_id (set_doc sch d object) = doc_id d" "modelName (set_doc sch d object) = modelName d"
  "isNew (set_doc sch d object) = isNew d" "original (set_doc sch d object) = original d"
  unfolding set_doc_def
  by (induction object arbitrary: d) (simp_all add: set_path_fields)

lemma set_path_vals:
  "map_of (vals (set_path sch d kv)) k =
     (if fst kv \<in> set (paths sch) \<and> k = fst kv then Some (snd kv) else map_of (vals d) k)"
  by (auto simp: set_path_def update_conv' split: option.splits)

lemma set_doc_vals:
  "distinct (map fst object) \<Longrightarrow>
     map_of (vals (set_doc sch d object)) k =
       (if k \<in> set (paths sch)
        then (case map_of object k of Some v \<Rightarrow> Some v | None \<Rightarrow> map_of (vals d) k)
        else map_of (vals d) k)"
  unfolding set_doc_def
proof (induction object arbitrary: d)
  case Nil
  then show ?case by simp
next
  case (Cons kv object)
  obtain k' v' where kv: "kv = (k', v')" by (cases kv)
  from Cons.prems kv have d: "distinct (map fst object)" and fresh: "k' \<notin> fst ` set object" by auto
  from fresh have none: "map_of object k' = None" by (simp add: map_of_eq_None_iff)
  show ?case
    using Cons.IH [OF d, of "set_path sch d kv"] kv none
    by (auto simp: set_path_vals split: option.splits)
qed

lemma rollback_valid:
  assumes "list_ex (\<lambda>p. ref p = doc_id d \<and> pid p = t) (patch_colls c (patchModelName opts (modelName d)))"
    and "count_from (doc_id d) t (patch_colls c (patchModelName opts (modelName d))) \<noteq> 1"
    and "apply_patches [] (find_upto (doc_id d) t (patch_colls c (patchModelName opts (modelName d))))
           = Inr state"
  shows "rollback w opts sch t dat d c =
           (err_of (save w opts sch (set_doc sch d (lodash_merge dat state))
                      (snd (getPatchModel opts (modelName d) c))),
            doc_of (save w opts sch (set_doc sch d (lodash_merge dat state))
                      (snd (getPatchModel opts (modelName d) c))),
            map_option (\<lambda>x. lodash_merge dat state) dat,
            db_of (save w opts sch (set_doc sch d (lodash_merge dat state))
                      (snd (getPatchModel opts (modelName d) c))))"
proof -
  obtain c1 where g: "getPatchModel opts (modelName d) c = (patchModelName opts (modelName d), c1)"
      "getPatchModel opts (modelName d) c1 = (patchModelName opts (modelName d), c1)"
    and c1: "patch_colls c1 = patch_colls c"
    using getPatchModel_eq by blast
  have "list_ex (\<lambda>p. pid p = t)
          (find_upto (doc_id d) t (patch_colls c (patchModelName opts (modelName d))))"
    using assms(1) by (auto simp: find_upto_def list_ex_iff)
  then show ?thesis using assms(2,3) g c1
    by (simp add: rollback_def err_of_def doc_of_def db_of_def case_prod_beta Let_def)
qed

section \<open>Diff and replay\<close>

lemma jsonpatch_apply_append:
  "jsonpatch_apply tree (xs @ ys) =
     (case jsonpatch_apply tree xs of Inl e \<Rightarrow> Inl e | Inr tree' \<Rightarrow> jsonpatch_apply tree' ys)"
  by (induction xs arbitrary: tree) (auto split: sum.splits)

lemma old_key_ops_apply:
  assumes "map_of s k = map_of a k" and "map_of a k \<noteq> None"
  shows "\<exists>s'. jsonpatch_apply s (old_key_ops a b k) = Inr s' \<and>
              map_of s' = (map_of s)(k := map_of b k)"
proof (cases "map_of b k")
  case None
  with assms show ?thesis by (auto simp: old_key_ops_def delete_conv')
next
  case (Some nv)
  show ?thesis
  proof (cases "map_of a k = Some nv")
    case True
    with Some assms(1) have "(map_of s)(k := map_of b k) = map_of s" by (auto simp: fun_upd_idem_iff)
    with True Some show ?thesis by (simp add: old_key_ops_def)
  next
    case False
    with Some assms show ?thesis by (auto simp: old_key_ops_def update_conv')
  qed
qed

lemma changes_apply:
  assumes "distinct ks" and "\<forall>k\<in>set ks. map_of s k = map_of a k \<and> map_of a k \<noteq> None"
  shows "\<exists>s'. jsonpatch_apply s (concat (map (old_key_ops a b) ks)) = Inr s' \<and>
              (\<forall>k. map_of s' k = (if k \<in> set ks then map_of b k else map_of s k))"
  using assms
proof (induction ks arbitrary: s)
  case Nil
  then show ?case by simp
next
  case (Cons k ks)
  from Cons.prems have hk: "map_of s k = map_of a k" "map_of a k \<noteq> None" by simp_all
  from old_key_ops_apply [OF hk, of b]
  obtain s1 where s1: "jsonpatch_apply s (old_key_ops a b k) = Inr s1"
    "map_of s1 = (map_of s)(k := map_of b k)" by blast
  from Cons.prems have dk: "distinct ks" and nk: "k \<notin> set ks" by simp_all
  have "\<forall>k'\<in>set ks. map_of s1 k' = map_of a k' \<and> map_of a k' \<noteq> None"
    using Cons.prems(2) nk s1(2) by auto
  from Cons.IH [OF dk this]
  obtain s2 where s2: "jsonpatch_apply s1 (concat (map (old_key_ops a b) ks)) = Inr s2"
    "\<forall>k'. map_of s2 k' = (if k' \<in> set ks then map_of b k' else map_of s1 k')" by blast
  have "jsonpatch_apply s (concat (map (old_key_ops a b) (k # ks))) = Inr s2"
    using s1(1) s2(1) by (simp add: jsonpatch_apply_append)
  moreover have "\<forall>k'. map_of s2 k' = (if k' \<in> set (k # ks) then map_of b k' else map_of s k')"
    using s2(2) s1(2) nk by auto
  ultimately show ?case by blast
qed

lemma adds_apply:
  "\<exists>s'. jsonpatch_apply s (concat (map (new_key_ops a b) ks)) = Inr s' \<and>
        (\<forall>k. map_of s' k =
           (if k \<in> set ks \<and> map_of a k = None \<and> map_of b k \<noteq> None then map_of b k
            else map_of s k))"
proof (induction ks arbitrary: s)
  case Nil
  then show ?case by simp
next
  case (Cons k ks)
  have "\<exists>s1. jsonpatch_apply s (new_key_ops a b k) = Inr s1 \<and>
      map_of s1 = (if map_of a k = None \<and> map_of b k \<noteq> None then (map_of s)(k := map_of b k)
                   else map_of s)"
    by (auto simp: new_key_ops_def update_conv' split: option.splits)
  then obtain s1 where s1: "jsonpatch_apply s (new_key_ops a b k) = Inr s1"
    "map_of s1 = (if map_of a k = None \<and> map_of b k \<noteq> None then (map_of s)(k := map_of b k)
                   else map_of s)" by blast
  from Cons.IH [of s1]
  obtain s2 where s2: "jsonpatch_apply s1 (concat (map (new_key_ops a b) ks)) = Inr s2"
    "\<forall>k'. map_of s2 k' =
           (if k' \<in> set ks \<and> map_of a k' = None \<and> map_of b k' \<noteq> None then map_of b k'
            else map_of s1 k')" by blast
  have "jsonpatch_apply s (concat (map (new_key_ops a b) (k # ks))) = Inr s2"
    using s1(1) s2(1) by (simp add: jsonpatch_apply_append)
  moreover have "\<forall>k'. map_of s2 k' =
           (if k' \<in> set (k # ks) \<and> map_of a k' = None \<and> map_of b k' \<noteq> None then map_of b k'
            else map_of s k')"
    using s2(2) s1(2) by auto
  ultimately show ?case by blast
qed

lemma compare_distinct:
  assumes "distinct (map fst a)" and "distinct (map fst b)"
  shows "jsonpatch_compare a b =
           concat (map (old_key_ops a b) (rev (map fst a))) @
           concat (map (new_key_ops a b) (map fst b))"
proof (cases "\<not> list_ex (\<lambda>k. map_of b k = None) (map fst a) \<and> length (map fst b) = length (map fst a)")
  case False
  then show ?thesis by (auto simp: jsonpatch_compare_def Let_def)
next
  case True
  then have sub: "set (map fst a) \<subseteq> set (map fst b)"
    by (auto simp: list_ex_iff map_of_eq_None_iff)
  have "card (set (map fst a)) = card (set (map fst b))"
    using True assms by (simp only: distinct_card)
  with sub have "set (map fst a) = set (map fst b)"
    by (simp add: card_subset_eq)
  then have "\<forall>k\<in>set (map fst b). map_of a k \<noteq> None"
    by (metis map_of_eq_None_iff set_map)
  then have "concat (map (new_key_ops a b) (map fst b)) = []"
    by (auto simp: new_key_ops_def split: option.splits)
  with True show ?thesis by (simp add: jsonpatch_compare_def Let_def)
qed

lemma diff_replay_round_trip:
  assumes "distinct (map fst a)" and "distinct (map fst b)" and "map_of s = map_of a"
  shows "\<exists>s'. jsonpatch_apply s (jsonpatch_compare a b) = Inr s' \<and> map_of s' = map_of b"
proof -
  have "\<forall>k\<in>set (rev (map fst a)). map_of s k = map_of a k \<and> map_of a k \<noteq> None"
    using assms(3) by (auto simp: map_of_eq_None_iff)
  from changes_apply [OF _ this, of b] assms(1)
  obtain s1 where s1: "jsonpatch_apply s (concat (map (old_key_ops a b) (rev (map fst a)))) = Inr s1"
    "\<forall>k. map_of s1 k = (if k \<in> set (rev (map fst a)) then map_of b k else map_of s k)"
    by auto
  from adds_apply [of s1 a b "map fst b"]
  obtain s2 where s2: "jsonpatch_apply s1 (concat (map (new_key_ops a b) (map fst b))) = Inr s2"
    "\<forall>k. map_of s2 k =
       (if k \<in> set (map fst b) \<and> map_of a k = None \<and> map_of b k \<noteq> None then map_of b k
        else map_of s1 k)" by blast
  have "jsonpatch_apply s (jsonpatch_compare a b) = Inr s2"
    using s1(1) s2(1) by (simp add: compare_distinct [OF assms(1,2)] jsonpatch_apply_append)
  moreover have "map_of s2 k = map_of b k" for k
  proof (cases "k \<in> set (map fst a)")
    case True
    then have "map_of a k \<noteq> None" by (simp add: map_of_eq_None_iff)
    with True s1(2) s2(2) show ?thesis by simp
  next
    case False
    then have na: "map_of a k = None" by (simp add: map_of_eq_None_iff)
    with False s1(2) assms(3) have n1: "map_of s1 k = None" by simp
    show ?thesis
    proof (cases "map_of b k")
      case None
      with n1 s2(2) show ?thesis by simp
    next
      case (Some v)
      then have "k \<in> set (map fst b)" by (metis map_of_eq_None_iff option.distinct(1) set_map)
      with Some na s2(2) show ?thesis by simp
    qed
  qed
  ultimately show ?thesis by blast
qed

lemma replay_history:
  "is_history s0 states ps \<Longrightarrow> distinct (map fst s0) \<Longrightarrow> map_of t0 = map_of s0 \<Longrightarrow>
     \<exists>st. apply_patches t0 ps = Inr st \<and> map_of st = map_of (last (s0 # states))"
proof (induction s0 states ps arbitrary: t0 rule: is_history.induct)
  case (1 s)
  then show ?case by simp
next
  case (2 s x xs p ps)
  from "2.prems" have o: "ops p = jsonpatch_compare s x" and dx: "distinct (map fst x)"
    and h: "is_history x xs ps" by simp_all
  from diff_replay_round_trip [OF "2.prems"(2) dx "2.prems"(3)]
  obtain t1 where t1: "jsonpatch_apply t0 (jsonpatch_compare s x) = Inr t1" "map_of t1 = map_of x"
    by blast
  from "2.IH" [OF h dx t1(2)]
  obtain st where "apply_patches t1 ps = Inr st" "map_of st = map_of (last (x # xs))" by blast
  with t1 o show ?case by simp
qed simp_all

section \<open>Rollback to a patch of the history\<close>

lemma getPatchModel_next_oid: "next_oid (snd (getPatchModel opts name c)) = next_oid c"
  by (simp add: getPatchModel_def Let_def)

lemma rollback_fields:
  assumes "list_ex (\<lambda>p. ref p = doc_id d \<and> pid p = t) (patch_colls c (patchModelName opts (modelName d)))"
    and "count_from (doc_id d) t (patch_colls c (patchModelName opts (modelName d))) \<noteq> 1"
    and "apply_patches [] (find_upto (doc_id d) t (patch_colls c (patchModelName opts (modelName d))))
           = Inr state"
    and "distinct (map fst (lodash_merge dat state))"
    and "map_of (lodash_merge dat state) k = Some v"
    and "k \<in> set (paths sch)" and "k \<notin> set (stripped sch)"
  shows "map_of (data sch (rb_doc (rollback w opts sch t dat d c))) k = Some v"
proof -
  let ?d1 = "set_doc sch d (lodash_merge dat state)"
  let ?c1 = "snd (getPatchModel opts (modelName d) c)"
  have "rb_doc (rollback w opts sch t dat d c) = doc_of (save w opts sch ?d1 ?c1)"
    by (simp add: rollback_valid [OF assms(1,2,3)] rb_doc_def)
  then have "data sch (rb_doc (rollback w opts sch t dat d c)) = data sch ?d1"
    by (simp add: save_data)
  then show ?thesis using assms(4,5,6,7) by (simp add: map_of_data set_doc_vals)
qed

lemma rollback_patches:
  assumes "list_ex (\<lambda>p. ref p = doc_id d \<and> pid p = t) (patch_colls c (patchModelName opts (modelName d)))"
    and "count_from (doc_id d) t (patch_colls c (patchModelName opts (modelName d))) \<noteq> 1"
    and "apply_patches [] (find_upto (doc_id d) t (patch_colls c (patchModelName opts (modelName d))))
           = Inr state"
  shows "(\<exists>p. patch_colls (rb_db (rollback w opts sch t dat d c)) =
              (patch_colls c)(patchModelName opts (modelName d) :=
                 patch_colls c (patchModelName opts (modelName d)) @ [p]) \<and>
            ref p = doc_id d \<and> ops p \<noteq> [] \<and> rb_err (rollback w opts sch t dat d c) = w \<and>
            save_ops sch (set_doc sch d (lodash_merge dat state)) = Inr (ops p)) \<or>
         (patch_colls (rb_db (rollback w opts sch t dat d c)) = patch_colls c \<and>
          (rb_err (rollback w opts sch t dat d c) \<noteq> None \<or>
           save_ops sch (set_doc sch d (lodash_merge dat state)) = Inr []))"
proof -
  let ?d1 = "set_doc sch d (lodash_merge dat state)"
  let ?c1 = "snd (getPatchModel opts (modelName d) c)"
  have r: "rb_db (rollback w opts sch t dat d c) = db_of (save w opts sch ?d1 ?c1)"
    "rb_err (rollback w opts sch t dat d c) = err_of (save w opts sch ?d1 ?c1)"
    by (simp_all add: rollback_valid [OF assms] rb_db_def rb_err_def)
  show ?thesis
    using save_effect [of w opts sch ?d1 ?c1]
    unfolding r set_doc_fields getPatchModel_colls getPatchModel_next_oid
    by auto
qed

lemma find_upto_fetches:
  "mset (find_upto r t ps) = mset (filter (\<lambda>p. ref p = r \<and> pid p \<le> t) ps)"
  "sorted (map date (find_upto r t ps))"
  by (simp_all add: find_upto_def)

text \<open>
  Patches stored out of date order, and one of another document: the fetch keeps the patches
  of the document up to the target and returns them by ascending date.
\<close>

lemma find_upto_orders:
  "map pid (find_upto 1 3
     [\<lparr>pid = 3, date = 5, ops = [], ref = 1, included = []\<rparr>,
      \<lparr>pid = 1, date = 0, ops = [], ref = 2, included = []\<rparr>,
      \<lparr>pid = 4, date = 7, ops = [], ref = 1, included = []\<rparr>,
      \<lparr>pid = 2, date = 1, ops = [], ref = 1, included = []\<rparr>]) = [2, 3]"
  by code_simp

lemma set_doc_restores:
  assumes "distinct (map fst state)"
    and "set (map fst state) \<subseteq> set (paths sch) - set (stripped sch)"
    and "set (map fst (data sch d)) \<subseteq> set (map fst state)"
  shows "map_of (data sch (set_doc sch d state)) = map_of state"
proof
  fix k
  show "map_of (data sch (set_doc sch d state)) k = map_of state k"
  proof (cases "map_of state k")
    case None
    then have "k \<notin> set (map fst state)" by (simp add: map_of_eq_None_iff)
    with assms(3) have "k \<notin> set (map fst (data sch d))" by auto
    then have "map_of (data sch d) k = None" by (simp add: map_of_eq_None_iff)
    with None show ?thesis
      by (simp add: map_of_data set_doc_vals [OF assms(1)] split: if_splits)
  next
    case (Some v)
    then have "k \<in> set (map fst state)" by (metis map_of_eq_None_iff option.distinct(1) set_map)
    with assms(2) have "k \<in> set (paths sch)" "k \<notin> set (stripped sch)" by auto
    with Some show ?thesis by (simp add: map_of_data set_doc_vals [OF assms(1)])
  qed
qed

text \<open>
  Claim C1, as amended. For a target that is the id of a patch of the document, is not the
  only patch at or above itself, and whose fetched patches replay without error:
  \<open>rollback\<close> fetches exactly the patches of the document with id at most the target, in
  ascending date order, replays their operations in that order against an empty object, sets
  the replayed state on the document and commits it through the save path. The replayed state
  has the content of the state the document was saved in at the target, whenever the fetched
  patches hold the successive diffs of the saved states. When the replayed state consists of
  paths that \<open>data()\<close> projects and the document's \<open>data()\<close> has no field that the
  replayed state lacks, \<open>data()\<close> afterwards has the content of the replayed state. The save
  appends exactly one patch, the diff of the snapshot and the new data, when that diff is not
  empty and the patch is accepted; otherwise it appends none. Every existing patch stays as it
  was.
\<close>

theorem rollback_replays_and_saves:
  assumes "list_ex (\<lambda>p. ref p = doc_id d \<and> pid p = t) (patch_colls c (patchModelName opts (modelName d)))"
    and "count_from (doc_id d) t (patch_colls c (patchModelName opts (modelName d))) \<noteq> 1"
    and "apply_patches [] (find_upto (doc_id d) t (patch_colls c (patchModelName opts (modelName d))))
           = Inr state"
  shows "mset (find_upto (doc_id d) t (patch_colls c (patchModelName opts (modelName d))))
           = mset (filter (\<lambda>p. ref p = doc_id d \<and> pid p \<le> t)
                     (patch_colls c (patchModelName opts (modelName d)))) \<and>
         sorted (map date (find_upto (doc_id d) t (patch_colls c (patchModelName opts (modelName d))))) \<and>
         (rb_err (rollback w opts sch t None d c), rb_doc (rollback w opts sch t None d c),
          rb_db (rollback w opts sch t None d c))
           = save w opts sch (set_doc sch d state) (snd (getPatchModel opts (modelName d) c)) \<and>
         (\<forall>states.
            is_history [] states
              (find_upto (doc_id d) t (patch_colls c (patchModelName opts (modelName d)))) \<longrightarrow>
            map_of state = map_of (last ([] # states))) \<and>
         (set (map fst state) \<subseteq> set (paths sch) - set (stripped sch) \<and>
          set (map fst (data sch d)) \<subseteq> set (map fst state) \<longrightarrow>
            map_of (data sch (rb_doc (rollback w opts sch t None d c))) = map_of state) \<and>
         ((\<exists>p. patch_colls (rb_db (rollback w opts sch t None d c)) =
              (patch_colls c)(patchModelName opts (modelName d) :=
                 patch_colls c (patchModelName opts (modelName d)) @ [p]) \<and>
            ref p = doc_id d \<and> ops p \<noteq> [] \<and> rb_err (rollback w opts sch t None d c) = w \<and>
            save_ops sch (set_doc sch d state) = Inr (ops p)) \<or>
          (patch_colls (rb_db (rollback w opts sch t None d c)) = patch_colls c \<and>
           (rb_err (rollback w opts sch t None d c) \<noteq> None \<or>
            save_ops sch (set_doc sch d state) = Inr [])))"
proof -
  have ds: "distinct (map fst state)"
    using apply_patches_distinct [OF _ assms(3)] by simp
  then have m: "lodash_merge None state = state" by (rule merge_fresh)
  note f = find_upto_fetches [of "doc_id d" t "patch_colls c (patchModelName opts (modelName d))"]
  have 1: "(rb_err (rollback w opts sch t None d c), rb_doc (rollback w opts sch t None d c),
          rb_db (rollback w opts sch t None d c))
           = save w opts sch (set_doc sch d state) (snd (getPatchModel opts (modelName d) c))"
    by (simp add: rollback_valid [OF assms] m rb_err_def rb_doc_def rb_db_def err_of_def doc_of_def
          db_of_def)
  have 2: "set (map fst state) \<subseteq> set (paths sch) - set (stripped sch) \<and>
          set (map fst (data sch d)) \<subseteq> set (map fst state) \<longrightarrow>
            map_of (data sch (rb_doc (rollback w opts sch t None d c))) = map_of state"
  proof
    assume a: "set (map fst state) \<subseteq> set (paths sch) - set (stripped sch) \<and>
          set (map fst (data sch d)) \<subseteq> set (map fst state)"
    have "rb_doc (rollback w opts sch t None d c)
            = doc_of (save w opts sch (set_doc sch d state) (snd (getPatchModel opts (modelName d) c)))"
      by (simp add: rollback_valid [OF assms] m rb_doc_def)
    then have "data sch (rb_doc (rollback w opts sch t None d c)) = data sch (set_doc sch d state)"
      by (simp add: save_data)
    with set_doc_restores [OF ds a [THEN conjunct1] a [THEN conjunct2]]
    show "map_of (data sch (rb_doc (rollback w opts sch t None d c))) = map_of state" by simp
  qed
  have h: "\<forall>states.
            is_history [] states
              (find_upto (doc_id d) t (patch_colls c (patchModelName opts (modelName d)))) \<longrightarrow>
            map_of state = map_of (last ([] # states))"
  proof (intro allI impI)
    fix states
    assume "is_history [] states
              (find_upto (doc_id d) t (patch_colls c (patchModelName opts (modelName d))))"
    from replay_history [OF this, of "[]"] assms(3)
    show "map_of state = map_of (last ([] # states))" by auto
  qed
  have 3: "(\<exists>p. patch_colls (rb_db (rollback w opts sch t None d c)) =
              (patch_colls c)(patchModelName opts (modelName d) :=
                 patch_colls c (patchModelName opts (modelName d)) @ [p]) \<and>
            ref p = doc_id d \<and> ops p \<noteq> [] \<and> rb_err (rollback w opts sch t None d c) = w \<and>
            save_ops sch (set_doc sch d state) = Inr (ops p)) \<or>
          (patch_colls (rb_db (rollback w opts sch t None d c)) = patch_colls c \<and>
           (rb_err (rollback w opts sch t None d c) \<noteq> None \<or>
            save_ops sch (set_doc sch d state) = Inr []))"
    using rollback_patches [OF assms, where sch = sch and dat = None and w = w] by (simp only: m)
  from f 1 h 2 3 show ?thesis by (intro conjI)
qed

text \<open>
  A post saved as \<open>version 1\<close>, \<open>version 2\<close> and \<open>version 1\<close> again, rolled back to its
  first patch: the target is valid and not the latest, the rollback succeeds and the data is
  the state of the target, but no patch is appended, since the save finds nothing to diff.
\<close>

theorem rollback_appends_one_counterexample:
  "list_ex (\<lambda>p. ref p = doc_id (doc_of post_v121) \<and> pid p = 2)
     (patch_colls (db_of post_v121) ''PostPatches'') \<and>
   count_from (doc_id (doc_of post_v121)) 2 (patch_colls (db_of post_v121) ''PostPatches'') = 3 \<and>
   rb_err (rollback None post_options PostSchema 2 None (doc_of post_v121) (db_of post_v121)) = None \<and>
   data PostSchema (rb_doc (rollback None post_options PostSchema 2 None (doc_of post_v121) (db_of post_v121)))
     = [(''title'', JStr ''version 1'')] \<and>
   length (patch_colls (db_of post_v121) ''PostPatches'') = 3 \<and>
   patch_colls (rb_db (rollback None post_options PostSchema 2 None (doc_of post_v121) (db_of post_v121)))
       ''PostPatches''
     = patch_colls (db_of post_v121) ''PostPatches''"
  by code_simp

theorem rollback_replays_and_saves_witness:
  "(list_ex (\<lambda>p. ref p = doc_id (doc_of post_v3) \<and> pid p = 3)
      (patch_colls (db_of post_v3) (patchModelName post_options (modelName (doc_of post_v3)))) \<and>
    count_from (doc_id (doc_of post_v3)) 3
      (patch_colls (db_of post_v3) (patchModelName post_options (modelName (doc_of post_v3)))) \<noteq> 1 \<and>
    apply_patches []
      (find_upto (doc_id (doc_of post_v3)) 3
         (patch_colls (db_of post_v3) (patchModelName post_options (modelName (doc_of post_v3)))))
      = Inr [(''title'', JStr ''version 2'')]) \<and>
   mset (find_upto (doc_id (doc_of post_v3)) 3
           (patch_colls (db_of post_v3) (patchModelName post_options (modelName (doc_of post_v3)))))
     = mset (filter (\<lambda>p. ref p = doc_id (doc_of post_v3) \<and> pid p \<le> 3)
               (patch_colls (db_of post_v3) (patchModelName post_options (modelName (doc_of post_v3))))) \<and>
   sorted (map date (find_upto (doc_id (doc_of post_v3)) 3
           (patch_colls (db_of post_v3) (patchModelName post_options (modelName (doc_of post_v3)))))) \<and>
   map pid (find_upto (doc_id (doc_of post_v3)) 3
           (patch_colls (db_of post_v3) (patchModelName post_options (modelName (doc_of post_v3)))))
     = [2, 3] \<and>
   (rb_err (rollback None post_options PostSchema 3 None (doc_of post_v3) (db_of post_v3)),
    rb_doc (rollback None post_options PostSchema 3 None (doc_of post_v3) (db_of post_v3)),
    rb_db (rollback None post_options PostSchema 3 None (doc_of post_v3) (db_of post_v3)))
     = save None post_options PostSchema
         (set_doc PostSchema (doc_of post_v3) [(''title'', JStr ''version 2'')])
         (snd (getPatchModel post_options (modelName (doc_of post_v3)) (db_of post_v3))) \<and>
   is_history [] [[(''title'', JStr ''version 1'')], [(''title'', JStr ''version 2'')]]
     (find_upto (doc_id (doc_of post_v3)) 3
        (patch_colls (db_of post_v3) (patchModelName post_options (modelName (doc_of post_v3))))) \<and>
   map_of [(''title'', JStr ''version 2'')]
     = map_of (last ([] # [[(''title'', JStr ''version 1'')], [(''title'', JStr ''version 2'')]])) \<and>
   (set (map fst [(''title'', JStr ''version 2'')]) \<subseteq> set (paths PostSchema) - set (stripped PostSchema) \<and>
    set (map fst (data PostSchema (doc_of post_v3))) \<subseteq> set (map fst [(''title'', JStr ''version 2'')])) \<and>
   map_of (data PostSchema
       (rb_doc (rollback None post_options PostSchema 3 None (doc_of post_v3) (db_of post_v3))))
     = map_of [(''title'', JStr ''version 2'')] \<and>
   rb_err (rollback None post_options PostSchema 3 None (doc_of post_v3) (db_of post_v3)) = None \<and>
   length (patch_colls (db_of post_v3) ''PostPatches'') = 3 \<and>
   map ops (patch_colls (rb_db (rollback None post_options PostSchema 3 None (doc_of post_v3) (db_of post_v3)))
       ''PostPatches'')
     = map ops (patch_colls (db_of post_v3) ''PostPatches'') @ [[Replace ''title'' (JStr ''version 2'')]]"
proof -
  have h1: "list_ex (\<lambda>p. ref p = doc_id (doc_of post_v3) \<and> pid p = 3)
      (patch_colls (db_of post_v3) (patchModelName post_options (modelName (doc_of post_v3))))"
    by code_simp
  have h2: "count_from (doc_id (doc_of post_v3)) 3
      (patch_colls (db_of post_v3) (patchModelName post_options (modelName (doc_of post_v3)))) \<noteq> 1"
    by code_simp
  have h3: "apply_patches []
      (find_upto (doc_id (doc_of post_v3)) 3
         (patch_colls (db_of post_v3) (patchModelName post_options (modelName (doc_of post_v3)))))
      = Inr [(''title'', JStr ''version 2'')]"
    by code_simp
  have s1: "set (map fst [(''title'', JStr ''version 2'')])
      \<subseteq> set (paths PostSchema) - set (stripped PostSchema)"
    by code_simp
  have s2: "set (map fst (data PostSchema (doc_of post_v3)))
      \<subseteq> set (map fst [(''title'', JStr ''version 2'')])"
    by code_simp
  have e: "rb_err (rollback None post_options PostSchema 3 None (doc_of post_v3) (db_of post_v3)) = None"
    by code_simp
  have n: "length (patch_colls (db_of post_v3) ''PostPatches'') = 3" by code_simp
  have a: "map ops (patch_colls (rb_db (rollback None post_options PostSchema 3 None (doc_of post_v3) (db_of post_v3)))
       ''PostPatches'')
     = map ops (patch_colls (db_of post_v3) ''PostPatches'') @ [[Replace ''title'' (JStr ''version 2'')]]"
    by code_simp
  have hist: "is_history [] [[(''title'', JStr ''version 1'')], [(''title'', JStr ''version 2'')]]
     (find_upto (doc_id (doc_of post_v3)) 3
        (patch_colls (db_of post_v3) (patchModelName post_options (modelName (doc_of post_v3)))))"
    by code_simp
  have ids: "map pid (find_upto (doc_id (doc_of post_v3)) 3
           (patch_colls (db_of post_v3) (patchModelName post_options (modelName (doc_of post_v3)))))
     = [2, 3]"
    by code_simp
  note t = rollback_replays_and_saves [OF h1 h2 h3, where sch = PostSchema and w = None]
  note S = conjI [OF s1 s2]
  note t1 = t [THEN conjunct1]
  note t2 = t [THEN conjunct2, THEN conjunct1]
  note t3 = t [THEN conjunct2, THEN conjunct2, THEN conjunct1]
  note g = t [THEN conjunct2, THEN conjunct2, THEN conjunct2, THEN conjunct1, THEN spec, THEN mp, OF hist]
  note f = t [THEN conjunct2, THEN conjunct2, THEN conjunct2, THEN conjunct2, THEN conjunct1, THEN mp, OF S]
  show ?thesis
    by (rule conjI [OF conjI [OF h1 conjI [OF h2 h3]]
          conjI [OF t1 conjI [OF t2 conjI [OF ids conjI [OF t3 conjI [OF hist conjI [OF g
            conjI [OF S conjI [OF f conjI [OF e conjI [OF n a]]]]]]]]]]])
qed

text \<open>
  The amended claim is silent about a document that has a field the replayed state lacks:
  \<open>this.set\<close> assigns the replayed fields and unsets nothing, so such a field stays on the
  document. The note rolled back to its first patch keeps its body, and the save finds nothing
  to diff.
\<close>

lemma rollback_keeps_later_fields:
  "apply_patches [] (find_upto (doc_id (doc_of note_v2)) 2 (patch_colls (db_of note_v2) ''NotePatches''))
     = Inr [(''title'', JStr ''a'')] \<and>
   rb_err (rollback None post_options NoteSchema 2 None (doc_of note_v2) (db_of note_v2)) = None \<and>
   data NoteSchema (rb_doc (rollback None post_options NoteSchema 2 None (doc_of note_v2) (db_of note_v2)))
     = [(''title'', JStr ''a''), (''body'', JStr ''b'')] \<and>
   map ops (patch_colls (rb_db (rollback None post_options NoteSchema 2 None (doc_of note_v2) (db_of note_v2)))
       ''NotePatches'')
     = [[Add ''title'' (JStr ''a'')], [Add ''body'' (JStr ''b'')]]"
  by code_simp

text \<open>
  Claim C4, as amended. In \<open>rollback(targetPatchId, extraData)\<close> the replayed state is
  merged into the caller's \<open>extraData\<close>: a field of the replayed state has the replayed value
  in the merged object, also when \<open>extraData\<close> has that field, and a field of \<open>extraData\<close>
  alone keeps its value. The merged object is set on the document and committed through the
  save path, so the document carries the replayed value of every replayed field.
\<close>

theorem extra_data_merge:
  assumes "list_ex (\<lambda>p. ref p = doc_id d \<and> pid p = t) (patch_colls c (patchModelName opts (modelName d)))"
    and "count_from (doc_id d) t (patch_colls c (patchModelName opts (modelName d))) \<noteq> 1"
    and "apply_patches [] (find_upto (doc_id d) t (patch_colls c (patchModelName opts (modelName d))))
           = Inr state"
    and "distinct (map fst x)"
  shows "(rb_err (rollback w opts sch t (Some x) d c), rb_doc (rollback w opts sch t (Some x) d c),
          rb_db (rollback w opts sch t (Some x) d c))
           = save w opts sch (set_doc sch d (lodash_merge (Some x) state))
               (snd (getPatchModel opts (modelName d) c)) \<and>
         (\<forall>k v. map_of state k = Some v \<longrightarrow> map_of (lodash_merge (Some x) state) k = Some v) \<and>
         (\<forall>k. map_of state k = None \<longrightarrow> map_of (lodash_merge (Some x) state) k = map_of x k) \<and>
         (\<forall>k v. map_of state k = Some v \<and> k \<in> set (paths sch) \<and> k \<notin> set (stripped sch) \<longrightarrow>
            map_of (data sch (rb_doc (rollback w opts sch t (Some x) d c))) k = Some v) \<and>
         (rb_err (rollback w opts sch t (Some x) d c) = None \<longrightarrow>
            documents (rb_db (rollback w opts sch t (Some x) d c)) (doc_id d)
              = Some (vals (rb_doc (rollback w opts sch t (Some x) d c))))"
proof -
  let ?m = "lodash_merge (Some x) state"
  let ?d1 = "set_doc sch d ?m"
  let ?c1 = "snd (getPatchModel opts (modelName d) c)"
  have ds: "distinct (map fst state)"
    using apply_patches_distinct [OF _ assms(3)] by simp
  have dm: "distinct (map fst ?m)" using assms(4) by (rule distinct_lodash_merge)
  have r: "rb_db (rollback w opts sch t (Some x) d c) = db_of (save w opts sch ?d1 ?c1)"
    "rb_err (rollback w opts sch t (Some x) d c) = err_of (save w opts sch ?d1 ?c1)"
    "rb_doc (rollback w opts sch t (Some x) d c) = doc_of (save w opts sch ?d1 ?c1)"
    by (simp_all add: rollback_valid [OF assms(1,2,3)] rb_db_def rb_err_def rb_doc_def)
  have 1: "(rb_err (rollback w opts sch t (Some x) d c), rb_doc (rollback w opts sch t (Some x) d c),
          rb_db (rollback w opts sch t (Some x) d c)) = save w opts sch ?d1 ?c1"
    unfolding r by (simp add: err_of_def doc_of_def db_of_def)
  have 2: "\<forall>k v. map_of state k = Some v \<longrightarrow> map_of ?m k = Some v"
    using ds by (simp add: map_of_lodash_merge)
  have 3: "\<forall>k. map_of state k = None \<longrightarrow> map_of ?m k = map_of x k"
    using ds by (simp add: map_of_lodash_merge)
  have 4: "\<forall>k v. map_of state k = Some v \<and> k \<in> set (paths sch) \<and> k \<notin> set (stripped sch) \<longrightarrow>
            map_of (data sch (rb_doc (rollback w opts sch t (Some x) d c))) k = Some v"
    using rollback_fields [OF assms(1,2,3) dm] 2 by blast
  have 5: "rb_err (rollback w opts sch t (Some x) d c) = None \<longrightarrow>
            documents (rb_db (rollback w opts sch t (Some x) d c)) (doc_id d)
              = Some (vals (rb_doc (rollback w opts sch t (Some x) d c)))"
    using save_effect [of w opts sch ?d1 ?c1] unfolding r set_doc_fields by auto
  from 1 2 3 4 5 show ?thesis by (intro conjI)
qed

text \<open>
  A rollback of the three-version post to its second patch with \<open>extraData = {title:
  "override"}\<close>: the field is in both objects, and the committed document carries the replayed
  \<open>version 2\<close>, not the caller's value.
\<close>

theorem extra_data_merge_counterexample:
  "map_of [(''title'', JStr ''override'')] ''title'' = Some (JStr ''override'') \<and>
   apply_patches []
     (find_upto (doc_id (doc_of post_v3)) 3 (patch_colls (db_of post_v3) ''PostPatches''))
     = Inr [(''title'', JStr ''version 2'')] \<and>
   rb_err (rollback None post_options PostSchema 3 (Some [(''title'', JStr ''override'')])
             (doc_of post_v3) (db_of post_v3)) = None \<and>
   map_of (data PostSchema
      (rb_doc (rollback None post_options PostSchema 3 (Some [(''title'', JStr ''override'')])
                 (doc_of post_v3) (db_of post_v3)))) ''title'' = Some (JStr ''version 2'') \<and>
   map_option (\<lambda>v. map_of v ''title'')
     (documents (rb_db (rollback None post_options PostSchema 3 (Some [(''title'', JStr ''override'')])
                 (doc_of post_v3) (db_of post_v3))) (doc_id (doc_of post_v3)))
     = Some (Some (JStr ''version 2''))"
  by code_simp

theorem extra_data_merge_witness:
  "(list_ex (\<lambda>p. ref p = doc_id (doc_of post_v3) \<and> pid p = 3)
      (patch_colls (db_of post_v3) (patchModelName post_options (modelName (doc_of post_v3)))) \<and>
    count_from (doc_id (doc_of post_v3)) 3
      (patch_colls (db_of post_v3) (patchModelName post_options (modelName (doc_of post_v3)))) \<noteq> 1 \<and>
    apply_patches []
      (find_upto (doc_id (doc_of post_v3)) 3
         (patch_colls (db_of post_v3) (patchModelName post_options (modelName (doc_of post_v3)))))
      = Inr [(''title'', JStr ''version 2'')] \<and>
    distinct (map fst [(''title'', JStr ''override''), (''note'', JStr ''by hand'')])) \<and>
   (rb_err (rollback None post_options PostSchema 3
              (Some [(''title'', JStr ''override''), (''note'', JStr ''by hand'')])
              (doc_of post_v3) (db_of post_v3)),
    rb_doc (rollback None post_options PostSchema 3
              (Some [(''title'', JStr ''override''), (''note'', JStr ''by hand'')])
              (doc_of post_v3) (db_of post_v3)),
    rb_db (rollback None post_options PostSchema 3
              (Some [(''title'', JStr ''override''), (''note'', JStr ''by hand'')])
              (doc_of post_v3) (db_of post_v3)))
     = save None post_options PostSchema
         (set_doc PostSchema (doc_of post_v3)
            (lodash_merge (Some [(''title'', JStr ''override''), (''note'', JStr ''by hand'')])
               [(''title'', JStr ''version 2'')]))
         (snd (getPatchModel post_options (modelName (doc_of post_v3)) (db_of post_v3))) \<and>
   map_of (lodash_merge (Some [(''title'', JStr ''override''), (''note'', JStr ''by hand'')])
             [(''title'', JStr ''version 2'')]) ''title'' = Some (JStr ''version 2'') \<and>
   map_of (lodash_merge (Some [(''title'', JStr ''override''), (''note'', JStr ''by hand'')])
             [(''title'', JStr ''version 2'')]) ''note''
     = map_of [(''title'', JStr ''override''), (''note'', JStr ''by hand'')] ''note'' \<and>
   map_of (data PostSchema
       (rb_doc (rollback None post_options PostSchema 3
              (Some [(''title'', JStr ''override''), (''note'', JStr ''by hand'')])
              (doc_of post_v3) (db_of post_v3)))) ''title''
     = Some (JStr ''version 2'') \<and>
   rb_err (rollback None post_options PostSchema 3
              (Some [(''title'', JStr ''override''), (''note'', JStr ''by hand'')])
              (doc_of post_v3) (db_of post_v3)) = None \<and>
   documents (rb_db (rollback None post_options PostSchema 3
              (Some [(''title'', JStr ''override''), (''note'', JStr ''by hand'')])
              (doc_of post_v3) (db_of post_v3))) (doc_id (doc_of post_v3))
     = Some (vals (rb_doc (rollback None post_options PostSchema 3
              (Some [(''title'', JStr ''override''), (''note'', JStr ''by hand'')])
              (doc_of post_v3) (db_of post_v3))))"
proof -
  let ?x = "[(''title'', JStr ''override''), (''note'', JStr ''by hand'')]"
  have h1: "list_ex (\<lambda>p. ref p = doc_id (doc_of post_v3) \<and> pid p = 3)
      (patch_colls (db_of post_v3) (patchModelName post_options (modelName (doc_of post_v3))))"
    by code_simp
  have h2: "count_from (doc_id (doc_of post_v3)) 3
      (patch_colls (db_of post_v3) (patchModelName post_options (modelName (doc_of post_v3)))) \<noteq> 1"
    by code_simp
  have h3: "apply_patches []
      (find_upto (doc_id (doc_of post_v3)) 3
         (patch_colls (db_of post_v3) (patchModelName post_options (modelName (doc_of post_v3)))))
      = Inr [(''title'', JStr ''version 2'')]"
    by code_simp
  have h4: "distinct (map fst ?x)" by simp
  have s1: "map_of [(''title'', JStr ''version 2'')] ''title'' = Some (JStr ''version 2'')" by simp
  have s1': "map_of [(''title'', JStr ''version 2'')] ''note'' = None" by simp
  have s2: "''title'' \<in> set (paths PostSchema)" by (simp add: PostSchema_def)
  have s3: "''title'' \<notin> set (stripped PostSchema)" by (simp add: PostSchema_def stripped_def)
  have e: "rb_err (rollback None post_options PostSchema 3 (Some ?x) (doc_of post_v3) (db_of post_v3)) = None"
    by code_simp
  note t = extra_data_merge [OF h1 h2 h3 h4, where sch = PostSchema and w = None]
  note c1 = t [THEN conjunct1]
  note c2 = t [THEN conjunct2, THEN conjunct1, THEN spec, THEN spec, THEN mp, OF s1]
  note c3 = t [THEN conjunct2, THEN conjunct2, THEN conjunct1, THEN spec, THEN mp, OF s1']
  note c4 = t [THEN conjunct2, THEN conjunct2, THEN conjunct2, THEN conjunct1, THEN spec, THEN spec,
      THEN mp, OF conjI [OF s1 conjI [OF s2 s3]]]
  note c5 = t [THEN conjunct2, THEN conjunct2, THEN conjunct2, THEN conjunct2, THEN mp, OF e]
  show ?thesis
    by (rule conjI [OF conjI [OF h1 conjI [OF h2 conjI [OF h3 h4]]]
          conjI [OF c1 conjI [OF c2 conjI [OF c3 conjI [OF c4 conjI [OF e c5]]]]]])
qed

text \<open>
  Claim C10, as amended. \<open>rollback\<close> mutates the caller's \<open>extraData\<close> object in place:
  every field of the replayed state is written into it before the merged result is set on
  the document. After the call the object equals what was passed in exactly when every field
  of the replayed state was already in it with the same value.
\<close>

theorem extra_data_mutated:
  assumes "list_ex (\<lambda>p. ref p = doc_id d \<and> pid p = t) (patch_colls c (patchModelName opts (modelName d)))"
    and "count_from (doc_id d) t (patch_colls c (patchModelName opts (modelName d))) \<noteq> 1"
    and "apply_patches [] (find_upto (doc_id d) t (patch_colls c (patchModelName opts (modelName d))))
           = Inr state"
  shows "rb_data (rollback w opts sch t (Some x) d c) = Some (lodash_merge (Some x) state) \<and>
         (\<forall>k v. map_of state k = Some v \<longrightarrow> map_of (lodash_merge (Some x) state) k = Some v) \<and>
         (rb_data (rollback w opts sch t (Some x) d c) = Some x \<longleftrightarrow>
            (\<forall>k v. map_of state k = Some v \<longrightarrow> map_of x k = Some v))"
proof -
  have ds: "distinct (map fst state)"
    using apply_patches_distinct [OF _ assms(3)] by simp
  have 1: "rb_data (rollback w opts sch t (Some x) d c) = Some (lodash_merge (Some x) state)"
    by (simp add: rollback_valid [OF assms] rb_data_def)
  have 2: "\<forall>k v. map_of state k = Some v \<longrightarrow> map_of (lodash_merge (Some x) state) k = Some v"
    using ds by (simp add: map_of_lodash_merge)
  have 3: "rb_data (rollback w opts sch t (Some x) d c) = Some x \<longleftrightarrow>
            (\<forall>k v. map_of state k = Some v \<longrightarrow> map_of x k = Some v)"
    unfolding 1 using lodash_merge_unchanged [OF ds, of x] by simp
  from 1 2 3 show ?thesis by (intro conjI)
qed

text \<open>
  A successful rollback with a non-empty replayed state that leaves \<open>extraData\<close> as it was
  passed in: the caller's object already held the replayed title.
\<close>

theorem extra_data_mutated_counterexample:
  "apply_patches []
     (find_upto (doc_id (doc_of post_v3)) 3 (patch_colls (db_of post_v3) ''PostPatches''))
     = Inr [(''title'', JStr ''version 2'')] \<and>
   [(''title'', JStr ''version 2'')] \<noteq> ([]::obj) \<and>
   rb_err (rollback None post_options PostSchema 3 (Some [(''title'', JStr ''version 2'')])
             (doc_of post_v3) (db_of post_v3)) = None \<and>
   rb_data (rollback None post_options PostSchema 3 (Some [(''title'', JStr ''version 2'')])
             (doc_of post_v3) (db_of post_v3)) = Some [(''title'', JStr ''version 2'')]"
  by code_simp

theorem extra_data_mutated_witness:
  "(list_ex (\<lambda>p. ref p = doc_id (doc_of post_v3) \<and> pid p = 3)
      (patch_colls (db_of post_v3) (patchModelName post_options (modelName (doc_of post_v3)))) \<and>
    count_from (doc_id (doc_of post_v3)) 3
      (patch_colls (db_of post_v3) (patchModelName post_options (modelName (doc_of post_v3)))) \<noteq> 1 \<and>
    apply_patches []
      (find_upto (doc_id (doc_of post_v3)) 3
         (patch_colls (db_of post_v3) (patchModelName post_options (modelName (doc_of post_v3)))))
      = Inr [(''title'', JStr ''version 2'')]) \<and>
   rb_data (rollback None post_options PostSchema 3 (Some [(''note'', JStr ''by hand'')])
              (doc_of post_v3) (db_of post_v3))
     = Some (lodash_merge (Some [(''note'', JStr ''by hand'')]) [(''title'', JStr ''version 2'')]) \<and>
   map_of (lodash_merge (Some [(''note'', JStr ''by hand'')]) [(''title'', JStr ''version 2'')]) ''title''
     = Some (JStr ''version 2'') \<and>
   rb_data (rollback None post_options PostSchema 3 (Some [(''note'', JStr ''by hand'')])
              (doc_of post_v3) (db_of post_v3)) \<noteq> Some [(''note'', JStr ''by hand'')] \<and>
   lodash_merge (Some [(''note'', JStr ''by hand'')]) [(''title'', JStr ''version 2'')]
     = [(''note'', JStr ''by hand''), (''title'', JStr ''version 2'')]"
proof -
  let ?x = "[(''note'', JStr ''by hand'')]"
  have h1: "list_ex (\<lambda>p. ref p = doc_id (doc_of post_v3) \<and> pid p = 3)
      (patch_colls (db_of post_v3) (patchModelName post_options (modelName (doc_of post_v3))))"
    by code_simp
  have h2: "count_from (doc_id (doc_of post_v3)) 3
      (patch_colls (db_of post_v3) (patchModelName post_options (modelName (doc_of post_v3)))) \<noteq> 1"
    by code_simp
  have h3: "apply_patches []
      (find_upto (doc_id (doc_of post_v3)) 3
         (patch_colls (db_of post_v3) (patchModelName post_options (modelName (doc_of post_v3)))))
      = Inr [(''title'', JStr ''version 2'')]"
    by code_simp
  have s1: "map_of [(''title'', JStr ''version 2'')] ''title'' = Some (JStr ''version 2'')" by simp
  have m: "lodash_merge (Some ?x) [(''title'', JStr ''version 2'')]
     = [(''note'', JStr ''by hand''), (''title'', JStr ''version 2'')]"
    by code_simp
  note t = extra_data_mutated [OF h1 h2 h3, where sch = PostSchema and x = ?x and w = None]
  note c1 = t [THEN conjunct1]
  note c2 = t [THEN conjunct2, THEN conjunct1, THEN spec, THEN spec, THEN mp, OF s1]
  note c3 = t [THEN conjunct2, THEN conjunct2]
  have c3': "rb_data (rollback None post_options PostSchema 3 (Some ?x) (doc_of post_v3) (db_of post_v3))
      \<noteq> Some ?x"
  proof
    assume "rb_data (rollback None post_options PostSchema 3 (Some ?x) (doc_of post_v3) (db_of post_v3))
      = Some ?x"
    with c3 have "\<forall>k v. map_of [(''title'', JStr ''version 2'')] k = Some v \<longrightarrow> map_of ?x k = Some v"
      by (rule iffD1)
    from this [THEN spec, THEN spec, THEN mp, OF s1] show False by simp
  qed
  show ?thesis
    by (rule conjI [OF conjI [OF h1 conjI [OF h2 h3]] conjI [OF c1 conjI [OF c2 conjI [OF c3' m]]]])
qed

end
